theory Spec2Isabelle
  imports Main "HOL-Library.Sublist"
begin

section \<open>The calculator's evaluator: a model of \<^verbatim>\<open>main.py\<close>\<close>

text \<open>
  The program is a Tk keypad around one function, \<^verbatim>\<open>safe_eval\<close>: it replaces every caret
  by the power operator, parses the text with \<^verbatim>\<open>ast.parse(expr, mode='eval')\<close> and walks
  the tree with the local function \<^verbatim>\<open>_eval\<close>, applying the functions of the table
  \<^verbatim>\<open>_ALLOWED_OPERATORS\<close> (\<^verbatim>\<open>operator.add\<close>, \<^verbatim>\<open>sub\<close>, \<^verbatim>\<open>mul\<close>, \<^verbatim>\<open>truediv\<close>, \<^verbatim>\<open>mod\<close>, \<^verbatim>\<open>pow\<close>,
  \<^verbatim>\<open>neg\<close>, \<^verbatim>\<open>pos\<close>).

  The functions of \<^verbatim>\<open>main.py\<close> are translated line by line. What they call in the Python
  runtime is modelled beside them, for CPython 3.8 to 3.13 (the versions on which
  \<^verbatim>\<open>ast.parse\<close> yields \<^verbatim>\<open>ast.Constant\<close> nodes and \<^verbatim>\<open>ast.Num\<close> still exists):
  \<^item> Python exceptions are values of \<open>py_exc\<close>, and a computation that may raise returns
    \<open>py_exc + 'a\<close>;
  \<^item> \<^verbatim>\<open>int\<close> is \<open>int\<close>; \<^verbatim>\<open>float\<close> is IEEE 754 binary64 with round-to-nearest-even, as an
    explicit datatype; \<^verbatim>\<open>bool\<close> and \<^verbatim>\<open>complex\<close> are values too, since the code lets both
    through;
  \<^item> what the C library computes inexactly (\<^verbatim>\<open>pow\<close> on doubles, complex multiplication,
    division and power, the shortest \<^verbatim>\<open>repr\<close> of a float) is a parameter \<open>rt\<close> of the model,
    a record of functions; every theorem holds for every such runtime;
  \<^item> \<^verbatim>\<open>ast.parse\<close> is a parameter of \<open>safe_eval\<close> as well; a model of CPython's tokenizer
    and expression grammar, \<open>ast_parse\<close>, is given further down and used wherever a claim
    speaks of a concrete input text.
  Recursion depth and memory are unbounded in the model.
\<close>

subsection \<open>Exceptions\<close>

datatype py_exc =
    SyntaxError
  | ValueError string
  | ZeroDivisionError
  | OverflowError
  | TypeError
  | RecursionError
  | MemoryError

subsection \<open>Python floats: IEEE 754 binary64\<close>

text \<open>
  A finite non-zero double is \<open>Fin m e\<close>, the number \<open>m * 2 ^ e\<close>, kept with an odd
  mantissa \<open>m\<close>, so that equal doubles are equal terms. The two zeros, the two infinities
  and NaN are constructors of their own.
\<close>

datatype pyfloat = Fin int int | PZero | NZero | PInf | NInf | NaN

text \<open>Numerator and denominator of a finite double (zero for the zeros).\<close>

definition fnum :: "pyfloat \<Rightarrow> int" where
  "fnum x = (case x of Fin m e \<Rightarrow> (if 0 \<le> e then m * 2 ^ nat e else m) | _ \<Rightarrow> 0)"

definition fden :: "pyfloat \<Rightarrow> int" where
  "fden x = (case x of Fin m e \<Rightarrow> (if 0 \<le> e then 1 else 2 ^ nat (- e)) | _ \<Rightarrow> 1)"

text \<open>\<open>pow2_le k p q\<close>: \<open>2 ^ k \<le> p / q\<close>, for \<open>q > 0\<close>, in integer arithmetic.\<close>

definition pow2_le :: "int \<Rightarrow> int \<Rightarrow> int \<Rightarrow> bool" where
  "pow2_le k p q = (if 0 \<le> k then q * 2 ^ nat k \<le> p else q \<le> p * 2 ^ nat (- k))"

text \<open>
  The binary exponent of \<open>p / q\<close>: the largest \<open>e\<close> in \<open>-1022 .. 1023\<close> with
  \<open>2 ^ e \<le> p / q\<close>, found by bisection over the steps given, and \<open>-1022\<close> for the
  subnormal range below \<open>2 ^ -1022\<close>.
\<close>

fun find_exp :: "int list \<Rightarrow> int \<Rightarrow> int \<Rightarrow> int \<Rightarrow> int" where
  "find_exp [] lo p q = lo"
| "find_exp (s # ss) lo p q =
     (if pow2_le (lo + s) p q then find_exp ss (lo + s) p q else find_exp ss lo p q)"

definition float_exp :: "int \<Rightarrow> int \<Rightarrow> int" where
  "float_exp p q =
     (if pow2_le (- 1022) p q
      then find_exp [1024, 512, 256, 128, 64, 32, 16, 8, 4, 2, 1] (- 1022) p q
      else - 1022)"

text \<open>\<open>p / q\<close> rounded to the nearest integer, ties to the even one.\<close>

definition round_half_even :: "int \<Rightarrow> int \<Rightarrow> int" where
  "round_half_even p q =
     (if 2 * (p mod q) < q then p div q
      else if q < 2 * (p mod q) then p div q + 1
      else if even (p div q) then p div q else p div q + 1)"

text \<open>\<open>p / q\<close> in units of \<open>2 ^ e\<close>, rounded.\<close>

definition scaled_mantissa :: "int \<Rightarrow> int \<Rightarrow> int \<Rightarrow> int" where
  "scaled_mantissa p q e =
     (if 0 \<le> e then round_half_even p (q * 2 ^ nat e)
      else round_half_even (p * 2 ^ nat (- e)) q)"

text \<open>Removing the trailing zero bits of a mantissa below \<open>2 ^ 64\<close>.\<close>

fun strip_zeros :: "nat list \<Rightarrow> int \<Rightarrow> int \<Rightarrow> pyfloat" where
  "strip_zeros [] m e = Fin m e"
| "strip_zeros (s # ss) m e =
     (if m mod 2 ^ s = 0 then strip_zeros ss (m div 2 ^ s) (e + int s)
      else strip_zeros ss m e)"

definition normal :: "int \<Rightarrow> int \<Rightarrow> pyfloat" where
  "normal m e = strip_zeros [32, 16, 8, 4, 2, 1] m e"

definition pack :: "bool \<Rightarrow> int \<Rightarrow> int \<Rightarrow> pyfloat" where
  "pack neg m e =
     (if m = 0 then (if neg then NZero else PZero)
      else if pow2_le 1024 (fnum (Fin m e)) (fden (Fin m e)) then (if neg then NInf else PInf)
      else normal (if neg then - m else m) e)"

text \<open>
  The double nearest to \<open>p / q\<close> (\<open>q > 0\<close>): 53 significant bits, exponent at least
  \<open>-1022\<close> (so that small values are rounded as subnormals), overflow to an infinity,
  underflow to a zero of the sign of \<open>p\<close>. An exact zero is \<open>+0.0\<close>.
\<close>

definition round_ratio :: "int \<Rightarrow> int \<Rightarrow> pyfloat" where
  "round_ratio p q =
     (if p = 0 then PZero
      else if pow2_le 1024 \<bar>p\<bar> q then (if p < 0 then NInf else PInf)
      else pack (p < 0) (scaled_mantissa \<bar>p\<bar> q (float_exp \<bar>p\<bar> q - 52))
             (float_exp \<bar>p\<bar> q - 52))"

definition f_is_nan :: "pyfloat \<Rightarrow> bool" where
  "f_is_nan x = (x = NaN)"

definition f_is_inf :: "pyfloat \<Rightarrow> bool" where
  "f_is_inf x = (x = PInf \<or> x = NInf)"

definition f_is_zero :: "pyfloat \<Rightarrow> bool" where
  "f_is_zero x = (x = PZero \<or> x = NZero)"

text \<open>The sign bit (\<^verbatim>\<open>copysign\<close> reads it), and the comparisons \<^verbatim>\<open>x < 0.0\<close>, \<^verbatim>\<open>x > 0.0\<close>.\<close>

definition f_signbit :: "pyfloat \<Rightarrow> bool" where
  "f_signbit x = (case x of Fin m e \<Rightarrow> m < 0 | NZero \<Rightarrow> True | NInf \<Rightarrow> True | _ \<Rightarrow> False)"

definition f_lt0 :: "pyfloat \<Rightarrow> bool" where
  "f_lt0 x = (case x of Fin m e \<Rightarrow> m < 0 | NInf \<Rightarrow> True | _ \<Rightarrow> False)"

definition f_gt0 :: "pyfloat \<Rightarrow> bool" where
  "f_gt0 x = (case x of Fin m e \<Rightarrow> 0 < m | PInf \<Rightarrow> True | _ \<Rightarrow> False)"

definition f_zero :: "bool \<Rightarrow> pyfloat" where
  "f_zero neg = (if neg then NZero else PZero)"

definition f_inf :: "bool \<Rightarrow> pyfloat" where
  "f_inf neg = (if neg then NInf else PInf)"

definition f_neg :: "pyfloat \<Rightarrow> pyfloat" where
  "f_neg x = (case x of Fin m e \<Rightarrow> Fin (- m) e | PZero \<Rightarrow> NZero | NZero \<Rightarrow> PZero
              | PInf \<Rightarrow> NInf | NInf \<Rightarrow> PInf | NaN \<Rightarrow> NaN)"

definition f_abs :: "pyfloat \<Rightarrow> pyfloat" where
  "f_abs x = (if f_signbit x then f_neg x else x)"

definition f_add :: "pyfloat \<Rightarrow> pyfloat \<Rightarrow> pyfloat" where
  "f_add x y =
     (if f_is_nan x \<or> f_is_nan y then NaN
      else if f_is_inf x then (if f_is_inf y \<and> x \<noteq> y then NaN else x)
      else if f_is_inf y then y
      else if f_is_zero x \<and> f_is_zero y then f_zero (x = NZero \<and> y = NZero)
      else round_ratio (fnum x * fden y + fnum y * fden x) (fden x * fden y))"

definition f_sub :: "pyfloat \<Rightarrow> pyfloat \<Rightarrow> pyfloat" where
  "f_sub x y = f_add x (f_neg y)"

definition f_mul :: "pyfloat \<Rightarrow> pyfloat \<Rightarrow> pyfloat" where
  "f_mul x y =
     (if f_is_nan x \<or> f_is_nan y then NaN
      else if f_is_inf x \<or> f_is_inf y
      then (if f_is_zero x \<or> f_is_zero y then NaN else f_inf (f_signbit x \<noteq> f_signbit y))
      else if f_is_zero x \<or> f_is_zero y then f_zero (f_signbit x \<noteq> f_signbit y)
      else round_ratio (fnum x * fnum y) (fden x * fden y))"

text \<open>Division by a non-zero double (Python raises before dividing by a zero).\<close>

definition f_div :: "pyfloat \<Rightarrow> pyfloat \<Rightarrow> pyfloat" where
  "f_div x y =
     (if f_is_nan x \<or> f_is_nan y then NaN
      else if f_is_inf x then (if f_is_inf y then NaN else f_inf (f_signbit x \<noteq> f_signbit y))
      else if f_is_inf y \<or> f_is_zero x then f_zero (f_signbit x \<noteq> f_signbit y)
      else round_ratio (fnum x * fden y * sgn (fnum y)) (fden x * \<bar>fnum y\<bar>))"

text \<open>
  C's \<^verbatim>\<open>fmod(x, y)\<close> for \<open>y\<close> not zero: exact, with the sign of \<open>x\<close>.
\<close>

definition c_fmod :: "pyfloat \<Rightarrow> pyfloat \<Rightarrow> pyfloat" where
  "c_fmod x y =
     (if f_is_nan x \<or> f_is_nan y \<or> f_is_inf x then NaN
      else if f_is_inf y \<or> f_is_zero x then x
      else if (\<bar>fnum x\<bar> * fden y) mod (\<bar>fnum y\<bar> * fden x) = 0 then f_zero (f_signbit x)
      else round_ratio (sgn (fnum x) * ((\<bar>fnum x\<bar> * fden y) mod (\<bar>fnum y\<bar> * fden x)))
             (fden x * fden y))"

text \<open>\<^verbatim>\<open>float.is_integer\<close>, \<^verbatim>\<open>int(x)\<close> for a finite \<open>x\<close>, and \<^verbatim>\<open>DOUBLE_IS_ODD_INTEGER\<close>.\<close>

definition f_is_integer :: "pyfloat \<Rightarrow> bool" where
  "f_is_integer x = (case x of Fin m e \<Rightarrow> fnum x mod fden x = 0 | PZero \<Rightarrow> True
                     | NZero \<Rightarrow> True | _ \<Rightarrow> False)"

definition f_to_int :: "pyfloat \<Rightarrow> int" where
  "f_to_int x = sgn (fnum x) * (\<bar>fnum x\<bar> div fden x)"

definition f_is_odd_integer :: "pyfloat \<Rightarrow> bool" where
  "f_is_odd_integer x = (f_is_integer x \<and> odd (f_to_int x))"

definition f_one :: pyfloat where
  "f_one = Fin 1 0"

subsection \<open>Values and the runtime's inexact functions\<close>

text \<open>
  The objects \<^verbatim>\<open>_eval\<close> can return: \<^verbatim>\<open>bool\<close> (a subclass of \<^verbatim>\<open>int\<close>), \<^verbatim>\<open>int\<close>, \<^verbatim>\<open>float\<close> and
  \<^verbatim>\<open>complex\<close> (real and imaginary part).
\<close>

datatype val = VBool bool | VInt int | VFloat pyfloat | VComplex pyfloat pyfloat

type_synonym cnum = "pyfloat \<times> pyfloat"

datatype operator =
    Add | Sub | Mult | MatMult | Div | Mod | Pow_op | LShift | RShift
  | BitOr | BitXor | BitAnd | FloorDiv

datatype unaryop = Invert | Not_op | UAdd | USub

text \<open>
  The part of the runtime that is not fixed by IEEE 754 or by the language:
  \<^item> \<open>rt_pow x y\<close>: the C library's \<^verbatim>\<open>pow\<close> on a finite base \<open>x > 0\<close>, \<open>x \<noteq> 1\<close> and a finite
    exponent \<open>y \<noteq> 0\<close>;
  \<^item> \<open>rt_complex op a b\<close>: the value that complex addition, subtraction,
    multiplication, division by a non-zero number and power compute;
  \<^item> \<open>rt_repr v\<close>: \<^verbatim>\<open>repr\<close> of a finite float and of a complex number;
  \<^item> \<open>rt_max_str_digits\<close>: \<^verbatim>\<open>sys.get_int_max_str_digits()\<close>, the limit on the decimal
    digits of an integer in a conversion from or to text (4300 by default from CPython
    3.11 on; \<open>0\<close> stands for no limit, as in Python).
\<close>

record runtime =
  rt_pow :: "pyfloat \<Rightarrow> pyfloat \<Rightarrow> pyfloat"
  rt_complex :: "operator \<Rightarrow> cnum \<Rightarrow> cnum \<Rightarrow> cnum"
  rt_repr :: "val \<Rightarrow> string"
  rt_max_str_digits :: nat

subsection \<open>Numeric conversions\<close>

definition is_complex :: "val \<Rightarrow> bool" where
  "is_complex v = (case v of VComplex re im \<Rightarrow> True | _ \<Rightarrow> False)"

definition is_float :: "val \<Rightarrow> bool" where
  "is_float v = (case v of VFloat x \<Rightarrow> True | _ \<Rightarrow> False)"

text \<open>The integer behind a \<^verbatim>\<open>bool\<close> or \<^verbatim>\<open>int\<close> (only applied to those).\<close>

definition int_of :: "val \<Rightarrow> int" where
  "int_of v = (case v of VBool b \<Rightarrow> (if b then 1 else 0) | VInt n \<Rightarrow> n | _ \<Rightarrow> 0)"

text \<open>
  \<^verbatim>\<open>PyLong_AsDouble\<close>: the nearest double, or \<^verbatim>\<open>OverflowError\<close> (int too large to convert to
  float).
\<close>

definition int_to_float :: "int \<Rightarrow> py_exc + pyfloat" where
  "int_to_float n = (if f_is_inf (round_ratio n 1) then Inl OverflowError
                     else Inr (round_ratio n 1))"

text \<open>The operand of a float operation (only applied to \<^verbatim>\<open>bool\<close>, \<^verbatim>\<open>int\<close>, \<^verbatim>\<open>float\<close>).\<close>

definition to_float :: "val \<Rightarrow> py_exc + pyfloat" where
  "to_float v = (case v of VFloat x \<Rightarrow> Inr x | _ \<Rightarrow> int_to_float (int_of v))"

definition to_complex :: "val \<Rightarrow> py_exc + cnum" where
  "to_complex v =
     (case v of VComplex re im \<Rightarrow> Inr (re, im)
      | _ \<Rightarrow> (case to_float v of Inl e \<Rightarrow> Inl e | Inr x \<Rightarrow> Inr (x, PZero)))"

definition c_is_zero :: "cnum \<Rightarrow> bool" where
  "c_is_zero c = (f_is_zero (fst c) \<and> f_is_zero (snd c))"

definition c_has_inf :: "cnum \<Rightarrow> bool" where
  "c_has_inf c = (f_is_inf (fst c) \<or> f_is_inf (snd c))"

definition vcomplex :: "cnum \<Rightarrow> val" where
  "vcomplex c = VComplex (fst c) (snd c)"

text \<open>
  Arithmetic with a complex operand (\<^verbatim>\<open>complexobject.c\<close>): both operands are converted;
  division by zero raises \<^verbatim>\<open>ZeroDivisionError\<close>; a power raises \<^verbatim>\<open>ZeroDivisionError\<close> for a
  zero base with a negative or complex exponent and \<^verbatim>\<open>OverflowError\<close> when a part of the result
  is infinite; \<^verbatim>\<open>%\<close> is not defined on \<^verbatim>\<open>complex\<close> and raises \<^verbatim>\<open>TypeError\<close>.
\<close>

definition complex_result :: "runtime \<Rightarrow> operator \<Rightarrow> cnum \<Rightarrow> cnum \<Rightarrow> py_exc + val" where
  "complex_result rt op a b =
     (if op = Div then
        (if c_is_zero b then Inl ZeroDivisionError else Inr (vcomplex (rt_complex rt op a b)))
      else if op = Pow_op then
        (if c_is_zero b then Inr (VComplex f_one PZero)
         else if c_is_zero a \<and> (if f_is_zero (snd b) then f_lt0 (fst b) else True)
           then Inl ZeroDivisionError
         else if c_has_inf (rt_complex rt op a b) then Inl OverflowError
         else Inr (vcomplex (rt_complex rt op a b)))
      else if op = Add \<or> op = Sub \<or> op = Mult then Inr (vcomplex (rt_complex rt op a b))
      else Inl TypeError)"

definition complex_op :: "runtime \<Rightarrow> operator \<Rightarrow> val \<Rightarrow> val \<Rightarrow> py_exc + val" where
  "complex_op rt op a b =
     (case to_complex a of Inl e \<Rightarrow> Inl e
      | Inr x \<Rightarrow> (case to_complex b of Inl e \<Rightarrow> Inl e
                  | Inr y \<Rightarrow> complex_result rt op x y))"

definition float_op :: "(pyfloat \<Rightarrow> pyfloat \<Rightarrow> py_exc + val) \<Rightarrow> val \<Rightarrow> val \<Rightarrow> py_exc + val" where
  "float_op f a b =
     (case to_float a of Inl e \<Rightarrow> Inl e
      | Inr x \<Rightarrow> (case to_float b of Inl e \<Rightarrow> Inl e | Inr y \<Rightarrow> f x y))"

subsection \<open>The functions of the \<^verbatim>\<open>operator\<close> module\<close>

text \<open>
  Each function follows CPython's dispatch on the operand types: a complex operand makes the
  operation complex, otherwise a float operand makes it a float operation, otherwise it is
  exact integer arithmetic (\<^verbatim>\<open>bool\<close> counting as \<open>0\<close> or \<open>1\<close>).
\<close>

definition py_add :: "runtime \<Rightarrow> val \<Rightarrow> val \<Rightarrow> py_exc + val" where
  "py_add rt a b =
     (if is_complex a \<or> is_complex b then complex_op rt Add a b
      else if is_float a \<or> is_float b then float_op (\<lambda>x y. Inr (VFloat (f_add x y))) a b
      else Inr (VInt (int_of a + int_of b)))"

definition py_sub :: "runtime \<Rightarrow> val \<Rightarrow> val \<Rightarrow> py_exc + val" where
  "py_sub rt a b =
     (if is_complex a \<or> is_complex b then complex_op rt Sub a b
      else if is_float a \<or> is_float b then float_op (\<lambda>x y. Inr (VFloat (f_sub x y))) a b
      else Inr (VInt (int_of a - int_of b)))"

definition py_mul :: "runtime \<Rightarrow> val \<Rightarrow> val \<Rightarrow> py_exc + val" where
  "py_mul rt a b =
     (if is_complex a \<or> is_complex b then complex_op rt Mult a b
      else if is_float a \<or> is_float b then float_op (\<lambda>x y. Inr (VFloat (f_mul x y))) a b
      else Inr (VInt (int_of a * int_of b)))"

text \<open>
  \<^verbatim>\<open>float_div\<close>: \<^verbatim>\<open>ZeroDivisionError\<close> for a zero divisor of either sign.
  \<^verbatim>\<open>long_true_divide\<close>: the correctly rounded quotient of two integers, \<^verbatim>\<open>OverflowError\<close> when
  it is too large for a float, and a zero of the quotient's sign for a zero dividend.
\<close>

definition float_div :: "pyfloat \<Rightarrow> pyfloat \<Rightarrow> py_exc + val" where
  "float_div x y = (if f_is_zero y then Inl ZeroDivisionError else Inr (VFloat (f_div x y)))"

definition long_true_divide :: "int \<Rightarrow> int \<Rightarrow> py_exc + val" where
  "long_true_divide a b =
     (if b = 0 then Inl ZeroDivisionError
      else if a = 0 then Inr (VFloat (f_zero (b < 0)))
      else if f_is_inf (round_ratio (a * sgn b) \<bar>b\<bar>) then Inl OverflowError
      else Inr (VFloat (round_ratio (a * sgn b) \<bar>b\<bar>)))"

definition py_truediv :: "runtime \<Rightarrow> val \<Rightarrow> val \<Rightarrow> py_exc + val" where
  "py_truediv rt a b =
     (if is_complex a \<or> is_complex b then complex_op rt Div a b
      else if is_float a \<or> is_float b then float_op float_div a b
      else long_true_divide (int_of a) (int_of b))"

text \<open>
  \<^verbatim>\<open>float_rem\<close>: \<^verbatim>\<open>fmod\<close>, then the remainder is given the sign of the divisor. Python's
  integer \<^verbatim>\<open>%\<close> is the floored remainder, which is \<open>mod\<close> on \<open>int\<close>. The type \<^verbatim>\<open>complex\<close> has
  no \<^verbatim>\<open>%\<close>.
\<close>

definition rem_adjust :: "pyfloat \<Rightarrow> pyfloat \<Rightarrow> pyfloat" where
  "rem_adjust m y =
     (if \<not> f_is_zero m then (if f_lt0 y \<noteq> f_lt0 m then f_add m y else m)
      else f_zero (f_signbit y))"

definition float_rem :: "pyfloat \<Rightarrow> pyfloat \<Rightarrow> py_exc + val" where
  "float_rem x y =
     (if f_is_zero y then Inl ZeroDivisionError
      else Inr (VFloat (rem_adjust (c_fmod x y) y)))"

definition py_mod :: "runtime \<Rightarrow> val \<Rightarrow> val \<Rightarrow> py_exc + val" where
  "py_mod rt a b =
     (if is_complex a \<or> is_complex b then Inl TypeError
      else if is_float a \<or> is_float b then float_op float_rem a b
      else if int_of b = 0 then Inl ZeroDivisionError
      else Inr (VInt (int_of a mod int_of b)))"

text \<open>
  \<^verbatim>\<open>float_pow\<close> (\<^verbatim>\<open>floatobject.c\<close>) sorts out the special cases itself, in this order, and
  calls the C library only for a finite positive base other than one: a negative base with
  a fractional exponent is passed to the complex power, and an infinite result of \<^verbatim>\<open>pow\<close> is
  an \<^verbatim>\<open>OverflowError\<close>.
\<close>

definition f_abs_gt1 :: "pyfloat \<Rightarrow> bool" where
  "f_abs_gt1 x = (f_is_inf x \<or> fden x < \<bar>fnum x\<bar>)"

definition pow_result :: "bool \<Rightarrow> pyfloat \<Rightarrow> py_exc + val" where
  "pow_result negate ix =
     (if f_is_inf ix then Inl OverflowError
      else Inr (VFloat (if negate then f_neg ix else ix)))"

definition float_pow :: "runtime \<Rightarrow> pyfloat \<Rightarrow> pyfloat \<Rightarrow> py_exc + val" where
  "float_pow rt iv iw =
     (if f_is_zero iw then Inr (VFloat f_one)
      else if f_is_nan iv then Inr (VFloat iv)
      else if f_is_nan iw then Inr (VFloat (if iv = f_one then f_one else iw))
      else if f_is_inf iw then
        (if f_abs iv = f_one then Inr (VFloat f_one)
         else if f_gt0 iw = f_abs_gt1 iv then Inr (VFloat PInf)
         else Inr (VFloat PZero))
      else if f_is_inf iv then
        (if f_gt0 iw then Inr (VFloat (if f_is_odd_integer iw then iv else f_abs iv))
         else Inr (VFloat (if f_is_odd_integer iw then f_zero (f_signbit iv) else PZero)))
      else if f_is_zero iv then
        (if f_lt0 iw then Inl ZeroDivisionError
         else Inr (VFloat (if f_is_odd_integer iw then iv else PZero)))
      else if f_lt0 iv \<and> \<not> f_is_integer iw
        then complex_result rt Pow_op (iv, PZero) (iw, PZero)
      else if f_abs iv = f_one
        then Inr (VFloat (if f_lt0 iv \<and> f_is_odd_integer iw then f_neg f_one else f_one))
      else pow_result (f_lt0 iv \<and> f_is_odd_integer iw) (rt_pow rt (f_abs iv) iw))"

text \<open>
  \<^verbatim>\<open>long_pow\<close>: exact for an exponent that is not negative; a negative exponent converts
  both integers to floats and calls \<^verbatim>\<open>float_pow\<close>.
\<close>

definition py_pow :: "runtime \<Rightarrow> val \<Rightarrow> val \<Rightarrow> py_exc + val" where
  "py_pow rt a b =
     (if is_complex a \<or> is_complex b then complex_op rt Pow_op a b
      else if is_float a \<or> is_float b then float_op (float_pow rt) a b
      else if 0 \<le> int_of b then Inr (VInt (int_of a ^ nat (int_of b)))
      else float_op (float_pow rt) a b)"

definition py_neg :: "val \<Rightarrow> py_exc + val" where
  "py_neg a =
     (case a of VFloat x \<Rightarrow> Inr (VFloat (f_neg x))
      | VComplex re im \<Rightarrow> Inr (VComplex (f_neg re) (f_neg im))
      | _ \<Rightarrow> Inr (VInt (- int_of a)))"

definition py_pos :: "val \<Rightarrow> py_exc + val" where
  "py_pos a =
     (case a of VFloat x \<Rightarrow> Inr (VFloat x)
      | VComplex re im \<Rightarrow> Inr (VComplex re im)
      | _ \<Rightarrow> Inr (VInt (int_of a)))"

subsection \<open>The operator whitelist\<close>

text \<open>
  \<^verbatim>\<open>_ALLOWED_OPERATORS\<close> is one dictionary from operator classes to functions. The parser
  puts a binary operator class in \<^verbatim>\<open>BinOp.op\<close> and a unary one in \<^verbatim>\<open>UnaryOp.op\<close>, so the
  dictionary is read here as its binary part and its unary part.
\<close>

definition ALLOWED_OPERATORS_binary ::
    "(operator \<times> (runtime \<Rightarrow> val \<Rightarrow> val \<Rightarrow> py_exc + val)) list" where
  "ALLOWED_OPERATORS_binary =
     [(Add, py_add), (Sub, py_sub), (Mult, py_mul), (Div, py_truediv), (Mod, py_mod),
      (Pow_op, py_pow)]"

definition ALLOWED_OPERATORS_unary :: "(unaryop \<times> (val \<Rightarrow> py_exc + val)) list" where
  "ALLOWED_OPERATORS_unary = [(USub, py_neg), (UAdd, py_pos)]"

subsection \<open>Syntax trees\<close>

text \<open>
  The values a \<^verbatim>\<open>Constant\<close> node can carry, and the node classes of \<^verbatim>\<open>ast\<close>: the ones
  \<^verbatim>\<open>_eval\<close> names, those the grammar model below builds, and \<open>OtherNode c\<close> for a node of
  any other class \<open>c\<close>.
\<close>

datatype const =
    CInt int | CFloat pyfloat | CComplex pyfloat pyfloat | CBool bool
  | CStr string | CBytes string | CNone | CEllipsis

datatype node =
    Expression node
  | BinOp node operator node
  | UnaryOp unaryop node
  | Constant const
  | Call node "node list" "(string option \<times> node) list"
  | Name string
  | Attribute node string
  | Tuple "node list"
  | Starred node
  | OtherNode string

definition operator_name :: "operator \<Rightarrow> string" where
  "operator_name op =
     (case op of Add \<Rightarrow> ''Add'' | Sub \<Rightarrow> ''Sub'' | Mult \<Rightarrow> ''Mult'' | MatMult \<Rightarrow> ''MatMult''
      | Div \<Rightarrow> ''Div'' | Mod \<Rightarrow> ''Mod'' | Pow_op \<Rightarrow> ''Pow'' | LShift \<Rightarrow> ''LShift''
      | RShift \<Rightarrow> ''RShift'' | BitOr \<Rightarrow> ''BitOr'' | BitXor \<Rightarrow> ''BitXor''
      | BitAnd \<Rightarrow> ''BitAnd'' | FloorDiv \<Rightarrow> ''FloorDiv'')"

definition unaryop_name :: "unaryop \<Rightarrow> string" where
  "unaryop_name op =
     (case op of Invert \<Rightarrow> ''Invert'' | Not_op \<Rightarrow> ''Not'' | UAdd \<Rightarrow> ''UAdd'' | USub \<Rightarrow> ''USub'')"

definition node_name :: "node \<Rightarrow> string" where
  "node_name n =
     (case n of Expression b \<Rightarrow> ''Expression'' | BinOp l op r \<Rightarrow> ''BinOp''
      | UnaryOp op x \<Rightarrow> ''UnaryOp'' | Constant c \<Rightarrow> ''Constant'' | Call f as ks \<Rightarrow> ''Call''
      | Name x \<Rightarrow> ''Name'' | Attribute v a \<Rightarrow> ''Attribute'' | Tuple es \<Rightarrow> ''Tuple''
      | Starred v \<Rightarrow> ''Starred'' | OtherNode c \<Rightarrow> c)"

text \<open>How an f-string prints a class of \<^verbatim>\<open>ast\<close> (from CPython 3.9 on).\<close>

definition class_repr :: "string \<Rightarrow> string" where
  "class_repr name = ''<class '' @ [CHR 0x27] @ ''ast.'' @ name @ [CHR 0x27] @ ''>''"

text \<open>
  \<^verbatim>\<open>isinstance(node, ast.Num)\<close>: since CPython 3.8 \<^verbatim>\<open>ast.Num\<close> is a deprecated alias whose
  instance check accepts a \<^verbatim>\<open>Constant\<close> with a value of type \<^verbatim>\<open>int\<close>, \<^verbatim>\<open>float\<close> or \<^verbatim>\<open>complex\<close>
  that is not a \<^verbatim>\<open>bool\<close> (\<^verbatim>\<open>_ABC.__instancecheck__\<close> in \<^verbatim>\<open>ast.py\<close>), and \<^verbatim>\<open>node.n\<close> is
  \<^verbatim>\<open>node.value\<close>. \<^verbatim>\<open>isinstance(node.value, (int, float))\<close> holds for \<^verbatim>\<open>int\<close>, \<^verbatim>\<open>float\<close> and
  \<^verbatim>\<open>bool\<close>, which is a subclass of \<^verbatim>\<open>int\<close>.
\<close>

definition isinstance_Num :: "const \<Rightarrow> bool" where
  "isinstance_Num c =
     (case c of CInt n \<Rightarrow> True | CFloat x \<Rightarrow> True | CComplex re im \<Rightarrow> True | _ \<Rightarrow> False)"

definition isinstance_int_float :: "const \<Rightarrow> bool" where
  "isinstance_int_float c =
     (case c of CInt n \<Rightarrow> True | CBool b \<Rightarrow> True | CFloat x \<Rightarrow> True | _ \<Rightarrow> False)"

text \<open>The value of a numeric constant (read only after one of the two checks).\<close>

definition const_value :: "const \<Rightarrow> val" where
  "const_value c =
     (case c of CInt n \<Rightarrow> VInt n | CFloat x \<Rightarrow> VFloat x | CComplex re im \<Rightarrow> VComplex re im
      | CBool b \<Rightarrow> VBool b | _ \<Rightarrow> VInt 0)"

subsection \<open>\<^verbatim>\<open>safe_eval\<close> and its tree walk \<^verbatim>\<open>_eval\<close>\<close>

text \<open>
  \<open>eval_node\<close> is \<^verbatim>\<open>_eval\<close>, branch for branch. In a \<^verbatim>\<open>BinOp\<close> both operands are evaluated,
  the left one first, before the operator is looked up; an exception raised by an operand
  or by the operator's function propagates.
\<close>

fun eval_node :: "runtime \<Rightarrow> node \<Rightarrow> py_exc + val" where
  "eval_node rt (Expression body) = eval_node rt body"
| "eval_node rt (BinOp left op right) =
     (case eval_node rt left of Inl e \<Rightarrow> Inl e
      | Inr l \<Rightarrow>
         (case eval_node rt right of Inl e \<Rightarrow> Inl e
          | Inr r \<Rightarrow>
             (case map_of ALLOWED_OPERATORS_binary op of
                Some f \<Rightarrow> f rt l r
              | None \<Rightarrow> Inl (ValueError (''Unsupported binary operator: ''
                                           @ class_repr (operator_name op))))))"
| "eval_node rt (UnaryOp op operand) =
     (case eval_node rt operand of Inl e \<Rightarrow> Inl e
      | Inr v \<Rightarrow>
         (case map_of ALLOWED_OPERATORS_unary op of
            Some f \<Rightarrow> f v
          | None \<Rightarrow> Inl (ValueError (''Unsupported unary operator: ''
                                       @ class_repr (unaryop_name op)))))"
| "eval_node rt (Constant c) =
     (if isinstance_Num c then Inr (const_value c)
      else if isinstance_int_float c then Inr (const_value c)
      else Inl (ValueError ''Constants other than numbers not allowed''))"
| "eval_node rt (Call func args keywords) = Inl (ValueError ''Function calls not allowed'')"
| "eval_node rt n = Inl (ValueError (''Unsupported expression: '' @ class_repr (node_name n)))"

text \<open>\<^verbatim>\<open>expr.replace('^', '**')\<close>.\<close>

fun replace_caret :: "string \<Rightarrow> string" where
  "replace_caret [] = []"
| "replace_caret (c # cs) =
     (if c = CHR ''^'' then ''**'' @ replace_caret cs else c # replace_caret cs)"

text \<open>The last three lines of \<^verbatim>\<open>safe_eval\<close>: a float that is an integer is returned as \<^verbatim>\<open>int\<close>.\<close>

definition display :: "val \<Rightarrow> val" where
  "display result =
     (case result of VFloat x \<Rightarrow> (if f_is_integer x then VInt (f_to_int x) else result)
      | _ \<Rightarrow> result)"

text \<open>
  \<open>safe_eval rt parse expr\<close>, with \<open>parse\<close> standing for \<^verbatim>\<open>ast.parse(_, mode='eval')\<close>: only
  a \<^verbatim>\<open>SyntaxError\<close> of the parser is caught and raised again as a \<^verbatim>\<open>ValueError\<close>.
\<close>

definition safe_eval :: "runtime \<Rightarrow> (string \<Rightarrow> py_exc + node) \<Rightarrow> string \<Rightarrow> py_exc + val" where
  "safe_eval rt parse expr =
     (case parse (replace_caret expr) of
        Inl e \<Rightarrow> (if e = SyntaxError then Inl (ValueError ''Syntax error'') else Inl e)
      | Inr node \<Rightarrow>
         (case eval_node rt node of Inl e \<Rightarrow> Inl e | Inr result \<Rightarrow> Inr (display result)))"

subsection \<open>\<^verbatim>\<open>str\<close> of a result\<close>

text \<open>
  The decimal digits of a natural number, and \<^verbatim>\<open>str\<close> of an \<^verbatim>\<open>int\<close>. When the runtime has a
  digit limit \<open>L > 0\<close>, \<^verbatim>\<open>str\<close> of an integer with more than \<open>L\<close> digits raises \<^verbatim>\<open>ValueError\<close>
  (the message is shortened here). Python refuses to set a limit between 1 and 639; the
  model reads such a value as 640. \<open>over_digit_limit L k\<close>: \<open>k\<close> digits are too many.
\<close>

definition digit_char :: "nat \<Rightarrow> char" where
  "digit_char d = ''0123456789'' ! d"

fun dec :: "nat \<Rightarrow> string" where
  "dec n = (if n < 10 then [digit_char n] else dec (n div 10) @ [digit_char (n mod 10)])"

declare dec.simps [simp del]

definition str_int :: "int \<Rightarrow> string" where
  "str_int n = (if n < 0 then CHR ''-'' # dec (nat (- n)) else dec (nat n))"

definition over_digit_limit :: "nat \<Rightarrow> nat \<Rightarrow> bool" where
  "over_digit_limit L k = (0 < L \<and> max 640 L < k)"

text \<open>
  \<^verbatim>\<open>str\<close> of a \<^verbatim>\<open>bool\<close>, an \<^verbatim>\<open>int\<close>, a \<^verbatim>\<open>float\<close> (the infinities and NaN have fixed names, a
  finite float is printed by the runtime's \<^verbatim>\<open>repr\<close>) and a \<^verbatim>\<open>complex\<close>.
\<close>

definition py_str :: "runtime \<Rightarrow> val \<Rightarrow> py_exc + string" where
  "py_str rt v =
     (case v of
        VBool b \<Rightarrow> Inr (if b then ''True'' else ''False'')
      | VInt n \<Rightarrow>
          (if over_digit_limit (rt_max_str_digits rt) (length (dec (nat \<bar>n\<bar>)))
           then Inl (ValueError ''Exceeds the limit for integer string conversion'')
           else Inr (str_int n))
      | VFloat x \<Rightarrow>
          Inr (if x = PInf then ''inf'' else if x = NInf then ''-inf''
               else if x = NaN then ''nan'' else rt_repr rt v)
      | VComplex re im \<Rightarrow> Inr (rt_repr rt v))"

subsection \<open>The calculator window\<close>

text \<open>
  Of the class \<^verbatim>\<open>Calculator\<close> only the display buffer \<^verbatim>\<open>self._expr\<close> (a \<^verbatim>\<open>StringVar\<close>) is
  state; the methods bound to buttons and keys read and set it. A character of the model
  is a code point below 256. \<^verbatim>\<open>str.strip()\<close> removes the characters for which
  \<^verbatim>\<open>str.isspace\<close> holds from both ends.
\<close>

record calculator =
  expr :: string

definition isspace :: "char \<Rightarrow> bool" where
  "isspace c = (c \<in> set [CHR 0x09, CHR 0x0A, CHR 0x0B, CHR 0x0C, CHR 0x0D, CHR 0x1C,
                          CHR 0x1D, CHR 0x1E, CHR 0x1F, CHR 0x20, CHR 0x85, CHR 0xA0])"

definition strip :: "string \<Rightarrow> string" where
  "strip s = rev (dropWhile isspace (rev (dropWhile isspace s)))"

definition append :: "calculator \<Rightarrow> string \<Rightarrow> calculator" where
  "append self char = self\<lparr>expr := expr self @ char\<rparr>"

definition clear :: "calculator \<Rightarrow> calculator" where
  "clear self = self\<lparr>expr := []\<rparr>"

definition backspace :: "calculator \<Rightarrow> calculator" where
  "backspace self = self\<lparr>expr := butlast (expr self)\<rparr>"

text \<open>
  \<^verbatim>\<open>except Exception\<close> catches every exception whose class derives from \<^verbatim>\<open>Exception\<close>; all
  the classes of \<open>py_exc\<close> do.
\<close>

definition is_Exception :: "py_exc \<Rightarrow> bool" where
  "is_Exception e =
     (case e of SyntaxError \<Rightarrow> True | ValueError m \<Rightarrow> True | ZeroDivisionError \<Rightarrow> True
      | OverflowError \<Rightarrow> True | TypeError \<Rightarrow> True | RecursionError \<Rightarrow> True
      | MemoryError \<Rightarrow> True)"

text \<open>
  The body of the \<^verbatim>\<open>try\<close> block of \<^verbatim>\<open>Calculator.evaluate\<close>: \<^verbatim>\<open>safe_eval\<close>, then \<^verbatim>\<open>str\<close>, then the
  buffer is set.
\<close>

definition evaluate_try ::
    "runtime \<Rightarrow> (string \<Rightarrow> py_exc + node) \<Rightarrow> calculator \<Rightarrow> string \<Rightarrow> py_exc + calculator" where
  "evaluate_try rt parse self e =
     (case safe_eval rt parse e of Inl x \<Rightarrow> Inl x
      | Inr res \<Rightarrow> (case py_str rt res of Inl x \<Rightarrow> Inl x
                    | Inr s \<Rightarrow> Inr (self\<lparr>expr := s\<rparr>)))"

text \<open>
  \<^verbatim>\<open>Calculator.evaluate\<close>: the result is the calculator after the call, or the exception
  that leaves the method.
\<close>

definition evaluate ::
    "runtime \<Rightarrow> (string \<Rightarrow> py_exc + node) \<Rightarrow> calculator \<Rightarrow> py_exc + calculator" where
  "evaluate rt parse self =
     (if strip (expr self) = [] then Inr self
      else (case evaluate_try rt parse self (strip (expr self)) of
              Inr self' \<Rightarrow> Inr self'
            | Inl e \<Rightarrow> (if is_Exception e then Inr (self\<lparr>expr := ''Error''\<rparr>) else Inl e)))"

subsection \<open>A model of \<^verbatim>\<open>ast.parse(text, mode='eval')\<close>\<close>

text \<open>
  \<^verbatim>\<open>ast.parse\<close> belongs to CPython, not to the program. The model follows CPython's tokenizer
  and grammar on the texts the keypad can produce and a little beyond: decimal integer, float
  and imaginary literals, names, \<^verbatim>\<open>True\<close>, \<^verbatim>\<open>False\<close>, \<^verbatim>\<open>None\<close>, plain string literals, the
  ellipsis, the operators \<^verbatim>\<open>+ - * / // % **\<close>, unary \<^verbatim>\<open>+\<close> and \<^verbatim>\<open>-\<close>, parentheses, the empty
  tuple, attribute access and calls with at most one argument. A text of space, tab, form
  feed, newline, carriage return, digits, \<^verbatim>\<open>.\<close> and these operator characters is parsed
  as CPython parses it; so is every other text used below. Not modelled, and answered with
  \<^verbatim>\<open>SyntaxError\<close>: the other operators and brackets, commas, comments, keywords other than
  the three constants, hexadecimal, octal and binary literals, string prefixes, escapes
  and triple quotes, letters outside ASCII. The result is \<open>Inl SyntaxError\<close> or the
  \<^verbatim>\<open>Expression\<close> node; the parser's other exceptions come from exhausted resources.

  The argument \<open>L\<close> is the runtime's digit limit: an integer literal with more digits is a
  \<^verbatim>\<open>SyntaxError\<close>.
\<close>

datatype token =
    NUMBER const | NAME string | STRING string
  | PLUS | MINUS | STAR | SLASH | DOUBLESLASH | PERCENT | DOUBLESTAR
  | LPAR | RPAR | DOT | ELLIPSIS | NEWLINE

definition is_digit :: "char \<Rightarrow> bool" where
  "is_digit c = (48 \<le> (of_char c :: nat) \<and> (of_char c :: nat) \<le> 57)"

definition digit_val :: "char \<Rightarrow> nat" where
  "digit_val c = of_char c - 48"

definition is_name_start :: "char \<Rightarrow> bool" where
  "is_name_start c =
     ((65 \<le> (of_char c :: nat) \<and> (of_char c :: nat) \<le> 90)
      \<or> (97 \<le> (of_char c :: nat) \<and> (of_char c :: nat) \<le> 122) \<or> c = CHR ''_'')"

definition is_name_char :: "char \<Rightarrow> bool" where
  "is_name_char c = (is_name_start c \<or> is_digit c)"

text \<open>A digit part: digits, with single underscores allowed between two digits.\<close>

fun digitpart_ok :: "string \<Rightarrow> bool" where
  "digitpart_ok [] = False"
| "digitpart_ok [c] = is_digit c"
| "digitpart_ok (c # d # cs) =
     (is_digit c \<and> (if d = CHR ''_'' then cs \<noteq> [] \<and> is_digit (hd cs) \<and> digitpart_ok cs
                      else digitpart_ok (d # cs)))"

definition digits_value :: "string \<Rightarrow> nat" where
  "digits_value ds = foldl (\<lambda>a c. 10 * a + digit_val c) 0 (filter is_digit ds)"

definition num_digits :: "string \<Rightarrow> nat" where
  "num_digits ds = length (filter is_digit ds)"

definition is_exp_char :: "char \<Rightarrow> bool" where
  "is_exp_char c = (c = CHR ''e'' \<or> c = CHR ''E'')"

definition is_imag_char :: "char \<Rightarrow> bool" where
  "is_imag_char c = (c = CHR ''j'' \<or> c = CHR ''J'')"

definition is_sign_char :: "char \<Rightarrow> bool" where
  "is_sign_char c = (c = CHR ''+'' \<or> c = CHR ''-'')"

text \<open>The parts of a numeric literal's text.\<close>

definition lit_imag :: "string \<Rightarrow> bool" where
  "lit_imag t = (t \<noteq> [] \<and> is_imag_char (last t))"

definition lit_body :: "string \<Rightarrow> string" where
  "lit_body t = (if lit_imag t then butlast t else t)"

definition lit_mantissa :: "string \<Rightarrow> string" where
  "lit_mantissa t = takeWhile (\<lambda>c. \<not> is_exp_char c) (lit_body t)"

definition lit_exponent :: "string \<Rightarrow> string" where
  "lit_exponent t = dropWhile (\<lambda>c. \<not> is_exp_char c) (lit_body t)"

definition lit_int :: "string \<Rightarrow> string" where
  "lit_int t = takeWhile (\<lambda>c. c \<noteq> CHR ''.'') (lit_mantissa t)"

definition lit_point :: "string \<Rightarrow> string" where
  "lit_point t = dropWhile (\<lambda>c. c \<noteq> CHR ''.'') (lit_mantissa t)"

definition lit_frac :: "string \<Rightarrow> string" where
  "lit_frac t = tl (lit_point t)"

definition lit_exp_digits :: "string \<Rightarrow> string" where
  "lit_exp_digits t =
     (if tl (lit_exponent t) \<noteq> [] \<and> is_sign_char (hd (tl (lit_exponent t)))
      then tl (tl (lit_exponent t)) else tl (lit_exponent t))"

definition lit_exp_value :: "string \<Rightarrow> int" where
  "lit_exp_value t =
     (if lit_exponent t = [] then 0
      else if hd (tl (lit_exponent t)) = CHR ''-'' then - int (digits_value (lit_exp_digits t))
      else int (digits_value (lit_exp_digits t)))"

definition lit_wellformed :: "string \<Rightarrow> bool" where
  "lit_wellformed t =
     ((lit_int t = [] \<or> digitpart_ok (lit_int t))
      \<and> (lit_frac t = [] \<or> digitpart_ok (lit_frac t))
      \<and> \<not> (lit_int t = [] \<and> lit_frac t = [])
      \<and> (lit_exponent t = [] \<or> digitpart_ok (lit_exp_digits t)))"

definition lit_is_integer :: "string \<Rightarrow> bool" where
  "lit_is_integer t = (lit_point t = [] \<and> lit_exponent t = [] \<and> \<not> lit_imag t)"

text \<open>The double nearest to \<open>d * 10 ^ x\<close>.\<close>

definition decimal_float :: "nat \<Rightarrow> int \<Rightarrow> pyfloat" where
  "decimal_float d x =
     (if 0 \<le> x then round_ratio (int d * 10 ^ nat x) 1 else round_ratio (int d) (10 ^ nat (- x)))"

definition lit_float :: "string \<Rightarrow> pyfloat" where
  "lit_float t =
     decimal_float (digits_value (lit_int t @ lit_frac t))
       (lit_exp_value t - int (num_digits (lit_frac t)))"

definition number_token :: "nat \<Rightarrow> string \<Rightarrow> const option" where
  "number_token L t =
     (if \<not> lit_wellformed t then None
      else if lit_is_integer t then
        (if hd t = CHR ''0'' \<and> digits_value t \<noteq> 0 then None
         else if digits_value t \<noteq> 0 \<and> over_digit_limit L (num_digits t) then None
         else Some (CInt (int (digits_value t))))
      else if lit_imag t then Some (CComplex PZero (lit_float t))
      else Some (CFloat (lit_float t)))"

text \<open>
  The tokenizer is a state machine over the characters: at the start of a line (counting
  the indentation column), between tokens, inside a number, a name, or a string literal
  opened by the quote \<open>q\<close>. \<open>lvl\<close> is the depth of open parentheses, at most 200; inside
  parentheses a line end is white space. A line of white space that ends in a line end is
  skipped; any other line that starts with indentation is an \<^verbatim>\<open>IndentationError\<close>, a
  subclass of \<^verbatim>\<open>SyntaxError\<close>. The text of a number is collected up to the first character
  that cannot continue it and then read by \<open>number_token\<close>.
\<close>

datatype lstate = LineStart nat | InLine | InNum string | InName string | InStr char string

definition is_blank :: "char \<Rightarrow> bool" where
  "is_blank c = (c = CHR '' '' \<or> c = CHR 0x09 \<or> c = CHR 0x0C)"

definition is_newline :: "char \<Rightarrow> bool" where
  "is_newline c = (c = CHR 0x0A \<or> c = CHR 0x0D)"

definition continues_number :: "string \<Rightarrow> char \<Rightarrow> bool" where
  "continues_number acc c =
     (is_name_char c
      \<or> (c = CHR ''.'' \<and> list_all (\<lambda>d. is_digit d \<or> d = CHR ''_'') acc)
      \<or> (is_sign_char c \<and> is_exp_char (last acc)))"

definition emit :: "token \<Rightarrow> token list option \<Rightarrow> token list option" where
  "emit t r = map_option (Cons t) r"

definition emit_number :: "nat \<Rightarrow> string \<Rightarrow> token list option \<Rightarrow> token list option" where
  "emit_number L acc r =
     (case number_token L acc of None \<Rightarrow> None | Some c \<Rightarrow> emit (NUMBER c) r)"

function tokenize :: "nat \<Rightarrow> lstate \<Rightarrow> nat \<Rightarrow> string \<Rightarrow> token list option" where
  "tokenize L st lvl [] =
     (case st of
        LineStart col \<Rightarrow> (if 0 < col then None else Some [])
      | InLine \<Rightarrow> (if 0 < lvl then None else Some [])
      | InNum acc \<Rightarrow> (if 0 < lvl then None else emit_number L acc (Some []))
      | InName acc \<Rightarrow> (if 0 < lvl then None else Some [NAME acc])
      | InStr q acc \<Rightarrow> None)"
| "tokenize L st lvl (c # cs) =
     (case st of
        LineStart col \<Rightarrow>
          (if c = CHR '' '' then tokenize L (LineStart (col + 1)) lvl cs
           else if c = CHR 0x09 then tokenize L (LineStart ((col div 8 + 1) * 8)) lvl cs
           else if c = CHR 0x0C then tokenize L (LineStart 0) lvl cs
           else if is_newline c then tokenize L (LineStart 0) lvl cs
           else if 0 < col then None
           else tokenize L InLine lvl (c # cs))
      | InLine \<Rightarrow>
          (if is_blank c then tokenize L InLine lvl cs
           else if is_newline c then
             (if 0 < lvl then tokenize L InLine lvl cs else emit NEWLINE (tokenize L (LineStart 0) lvl cs))
           else if is_digit c then tokenize L (InNum [c]) lvl cs
           else if c = CHR ''.'' then
             (if take 2 cs = ''..'' then emit ELLIPSIS (tokenize L InLine lvl (drop 2 cs))
              else if cs \<noteq> [] \<and> is_digit (hd cs) then tokenize L (InNum [c]) lvl cs
              else emit DOT (tokenize L InLine lvl cs))
           else if is_name_start c then tokenize L (InName [c]) lvl cs
           else if c = CHR 0x27 \<or> c = CHR 0x22 then tokenize L (InStr c []) lvl cs
           else if c = CHR ''('' then
             (if 200 \<le> lvl then None else emit LPAR (tokenize L InLine (lvl + 1) cs))
           else if c = CHR '')'' then
             (if lvl = 0 then None else emit RPAR (tokenize L InLine (lvl - 1) cs))
           else if c = CHR ''+'' then emit PLUS (tokenize L InLine lvl cs)
           else if c = CHR ''-'' then emit MINUS (tokenize L InLine lvl cs)
           else if c = CHR ''%'' then emit PERCENT (tokenize L InLine lvl cs)
           else if c = CHR ''*'' then
             (if take 1 cs = ''*'' then emit DOUBLESTAR (tokenize L InLine lvl (drop 1 cs))
              else emit STAR (tokenize L InLine lvl cs))
           else if c = CHR ''/'' then
             (if take 1 cs = ''/'' then emit DOUBLESLASH (tokenize L InLine lvl (drop 1 cs))
              else emit SLASH (tokenize L InLine lvl cs))
           else None)
      | InNum acc \<Rightarrow>
          (if continues_number acc c then tokenize L (InNum (acc @ [c])) lvl cs
           else emit_number L acc (tokenize L InLine lvl (c # cs)))
      | InName acc \<Rightarrow>
          (if is_name_char c then tokenize L (InName (acc @ [c])) lvl cs
           else if c = CHR 0x27 \<or> c = CHR 0x22 then None
           else emit (NAME acc) (tokenize L InLine lvl (c # cs)))
      | InStr q acc \<Rightarrow>
          (if c = q then
             (if acc = [] \<and> take 1 cs = [q] then None
              else emit (STRING acc) (tokenize L InLine lvl cs))
           else if c = CHR 0x5C \<or> is_newline c then None
           else tokenize L (InStr q (acc @ [c])) lvl cs))"
  by pat_completeness auto
termination
  by (relation "measure (\<lambda>(L, st, lvl, cs). 2 * length cs + (if st = InLine then 0 else 1))")
     auto

text \<open>
  The grammar, from CPython's \<^verbatim>\<open>python.gram\<close>, for the levels \<^verbatim>\<open>sum\<close>, \<^verbatim>\<open>term\<close>, \<^verbatim>\<open>factor\<close>,
  \<^verbatim>\<open>power\<close>, \<^verbatim>\<open>primary\<close> and \<^verbatim>\<open>atom\<close>: \<open>parse_level k ts\<close> reads one phrase of level \<open>k\<close> from
  the front of \<open>ts\<close> and returns its node with the tokens left over; \<open>parse_loop k l ts\<close>
  continues a left-associative chain whose left operand \<open>l\<close> has been read. The tests
  \<open>length r \<le> length ts\<close> are always true (a phrase never returns more tokens than it was
  given); they make the termination of the recursion evident.
\<close>

definition py_keywords :: "string list" where
  "py_keywords = [''and'', ''as'', ''assert'', ''async'', ''await'', ''break'', ''class'',
     ''continue'', ''def'', ''del'', ''elif'', ''else'', ''except'', ''finally'', ''for'',
     ''from'', ''global'', ''if'', ''import'', ''in'', ''is'', ''lambda'', ''nonlocal'',
     ''not'', ''or'', ''pass'', ''raise'', ''return'', ''try'', ''while'', ''with'', ''yield'']"

definition name_atom :: "string \<Rightarrow> node option" where
  "name_atom x =
     (if x = ''True'' then Some (Constant (CBool True))
      else if x = ''False'' then Some (Constant (CBool False))
      else if x = ''None'' then Some (Constant CNone)
      else if x \<in> set py_keywords then None
      else Some (Name x))"

definition is_STRING :: "token \<Rightarrow> bool" where
  "is_STRING t = (case t of STRING s \<Rightarrow> True | _ \<Rightarrow> False)"

definition string_of :: "token \<Rightarrow> string" where
  "string_of t = (case t of STRING s \<Rightarrow> s | _ \<Rightarrow> [])"

type_synonym 'a parsed = "('a \<times> token list) option"

definition sum_op :: "token \<Rightarrow> operator option" where
  "sum_op t = (case t of PLUS \<Rightarrow> Some Add | MINUS \<Rightarrow> Some Sub | _ \<Rightarrow> None)"

definition term_op :: "token \<Rightarrow> operator option" where
  "term_op t = (case t of STAR \<Rightarrow> Some Mult | SLASH \<Rightarrow> Some Div
                | DOUBLESLASH \<Rightarrow> Some FloorDiv | PERCENT \<Rightarrow> Some Mod | _ \<Rightarrow> None)"

definition unary_op :: "token \<Rightarrow> unaryop option" where
  "unary_op t = (case t of PLUS \<Rightarrow> Some UAdd | MINUS \<Rightarrow> Some USub | _ \<Rightarrow> None)"

text \<open>The argument of a call: how many tokens its mark takes, and the call node.\<close>

definition arg_skip :: "token list \<Rightarrow> nat" where
  "arg_skip ts = (if take 1 ts = [STAR] \<or> take 1 ts = [DOUBLESTAR] then 1 else 0)"

definition make_call :: "node \<Rightarrow> token list \<Rightarrow> node \<Rightarrow> node" where
  "make_call f ts x =
     (if take 1 ts = [STAR] then Call f [Starred x] []
      else if take 1 ts = [DOUBLESTAR] then Call f [] [(None, x)]
      else Call f [x] [])"

datatype level = Sum | Term | Factor | Power | Primary | Atom

definition rank :: "level \<Rightarrow> nat" where
  "rank k = (case k of Sum \<Rightarrow> 10 | Term \<Rightarrow> 8 | Factor \<Rightarrow> 6 | Power \<Rightarrow> 5 | Primary \<Rightarrow> 4
             | Atom \<Rightarrow> 2)"

function parse_level :: "level \<Rightarrow> token list \<Rightarrow> node parsed"
  and parse_loop :: "level \<Rightarrow> node \<Rightarrow> token list \<Rightarrow> node parsed"
where
  "parse_level Sum ts =
     (case parse_level Term ts of None \<Rightarrow> None
      | Some (l, r) \<Rightarrow> if length r \<le> length ts then parse_loop Sum l r else None)"
| "parse_level Term ts =
     (case parse_level Factor ts of None \<Rightarrow> None
      | Some (l, r) \<Rightarrow> if length r \<le> length ts then parse_loop Term l r else None)"
| "parse_level Factor ts =
     (case ts of [] \<Rightarrow> None
      | t # ts' \<Rightarrow>
          (case unary_op t of None \<Rightarrow> parse_level Power ts
           | Some u \<Rightarrow>
               (case parse_level Factor ts' of None \<Rightarrow> None
                | Some (x, r) \<Rightarrow> Some (UnaryOp u x, r))))"
| "parse_level Power ts =
     (case parse_level Primary ts of None \<Rightarrow> None
      | Some (b, r) \<Rightarrow>
          (if take 1 r = [DOUBLESTAR] \<and> length r \<le> length ts then
             (case parse_level Factor (drop 1 r) of None \<Rightarrow> None
              | Some (x, r') \<Rightarrow> Some (BinOp b Pow_op x, r'))
           else Some (b, r)))"
| "parse_level Primary ts =
     (case parse_level Atom ts of None \<Rightarrow> None
      | Some (a, r) \<Rightarrow> if length r \<le> length ts then parse_loop Primary a r else None)"
| "parse_level Atom ts =
     (case ts of [] \<Rightarrow> None
      | t # ts' \<Rightarrow>
          (case t of
             NUMBER c \<Rightarrow> Some (Constant c, ts')
           | NAME x \<Rightarrow> (case name_atom x of None \<Rightarrow> None | Some n \<Rightarrow> Some (n, ts'))
           | STRING s \<Rightarrow>
               Some (Constant (CStr (concat (s # map string_of (takeWhile is_STRING ts')))),
                     dropWhile is_STRING ts')
           | ELLIPSIS \<Rightarrow> Some (Constant CEllipsis, ts')
           | LPAR \<Rightarrow>
               (if take 1 ts' = [RPAR] then Some (Tuple [], drop 1 ts')
                else (case parse_level Sum ts' of None \<Rightarrow> None
                      | Some (x, r) \<Rightarrow>
                          if take 1 r = [RPAR] then Some (x, drop 1 r) else None))
           | _ \<Rightarrow> None))"
| "parse_loop Sum l ts =
     (case ts of [] \<Rightarrow> Some (l, [])
      | t # ts' \<Rightarrow>
          (case sum_op t of None \<Rightarrow> Some (l, ts)
           | Some op \<Rightarrow>
               (case parse_level Term ts' of None \<Rightarrow> None
                | Some (x, r) \<Rightarrow>
                    if length r \<le> length ts' then parse_loop Sum (BinOp l op x) r else None)))"
| "parse_loop Term l ts =
     (case ts of [] \<Rightarrow> Some (l, [])
      | t # ts' \<Rightarrow>
          (case term_op t of None \<Rightarrow> Some (l, ts)
           | Some op \<Rightarrow>
               (case parse_level Factor ts' of None \<Rightarrow> None
                | Some (x, r) \<Rightarrow>
                    if length r \<le> length ts' then parse_loop Term (BinOp l op x) r else None)))"
| "parse_loop Primary a ts =
     (case ts of [] \<Rightarrow> Some (a, [])
      | t # ts' \<Rightarrow>
          (if t = DOT then
             (case ts' of NAME x # r \<Rightarrow>
                (if x \<in> set py_keywords then None else parse_loop Primary (Attribute a x) r)
              | _ \<Rightarrow> None)
           else if t = LPAR then
             (if take 1 ts' = [RPAR] then parse_loop Primary (Call a [] []) (drop 1 ts')
              else
                (case parse_level Sum (drop (arg_skip ts') ts') of None \<Rightarrow> None
                 | Some (x, r) \<Rightarrow>
                     (if take 1 r = [RPAR] \<and> length r \<le> length ts'
                      then parse_loop Primary (make_call a ts' x) (drop 1 r) else None)))
           else Some (a, ts)))"
| "parse_loop Factor l ts = Some (l, ts)"
| "parse_loop Power l ts = Some (l, ts)"
| "parse_loop Atom l ts = Some (l, ts)"
  by pat_completeness auto
termination
  apply (relation "measure (\<lambda>x. case x of Inl (k, ts) \<Rightarrow> 16 * length ts + rank k
                                 | Inr (k, l, ts) \<Rightarrow> 16 * length ts + rank k - 1)")
  apply (auto simp: rank_def)
  subgoal for ts a b by (cases b) auto
  done

text \<open>
  The whole text must be one expression, followed by line ends only.
\<close>

definition ast_parse :: "nat \<Rightarrow> string \<Rightarrow> py_exc + node" where
  "ast_parse L s =
     (case tokenize L (LineStart 0) 0 s of None \<Rightarrow> Inl SyntaxError
      | Some ts \<Rightarrow>
          (case parse_level Sum ts of None \<Rightarrow> Inl SyntaxError
           | Some (n, r) \<Rightarrow> if list_all (\<lambda>t. t = NEWLINE) r then Inr (Expression n)
                             else Inl SyntaxError))"

subsection \<open>The failure kinds of the specification\<close>

text \<open>
  The specification names five kinds of failure. In the program four of them are the
  \<^verbatim>\<open>ValueError\<close>s that \<^verbatim>\<open>safe_eval\<close> raises itself, told apart by their message, and the fifth,
  \<^verbatim>\<open>ArithmeticFailure\<close>, is the arithmetic error that a function of the whitelist raises and
  that \<^verbatim>\<open>safe_eval\<close> lets through: a \<^verbatim>\<open>ZeroDivisionError\<close> or an \<^verbatim>\<open>OverflowError\<close>, the two
  subclasses of Python's \<^verbatim>\<open>ArithmeticError\<close> that occur. Every other exception has no kind.
\<close>

datatype failure =
  SyntaxRejected | UnsupportedLiteral | UnsupportedOperator | DisallowedConstruct
  | ArithmeticFailure

definition starts_with :: "string \<Rightarrow> string \<Rightarrow> bool" where
  "starts_with p m = (take (length p) m = p)"

definition failure_of :: "py_exc \<Rightarrow> failure option" where
  "failure_of e =
     (case e of
        ValueError m \<Rightarrow>
          (if m = ''Syntax error'' then Some SyntaxRejected
           else if m = ''Constants other than numbers not allowed'' then Some UnsupportedLiteral
           else if starts_with ''Unsupported binary operator: '' m then Some UnsupportedOperator
           else if starts_with ''Unsupported unary operator: '' m then Some UnsupportedOperator
           else if m = ''Function calls not allowed'' then Some DisallowedConstruct
           else if starts_with ''Unsupported expression: '' m then Some DisallowedConstruct
           else None)
      | ZeroDivisionError \<Rightarrow> Some ArithmeticFailure
      | OverflowError \<Rightarrow> Some ArithmeticFailure
      | _ \<Rightarrow> None)"

text \<open>
  A result of \<^verbatim>\<open>safe_eval\<close> is typed when it is a value or an exception of one of the five
  kinds.
\<close>

definition typed_result :: "py_exc + val \<Rightarrow> bool" where
  "typed_result r = (case r of Inr v \<Rightarrow> True
                     | Inl e \<Rightarrow> (case failure_of e of Some k \<Rightarrow> True | None \<Rightarrow> False))"

text \<open>
  The node classes other than \<^verbatim>\<open>Expression\<close>, \<^verbatim>\<open>BinOp\<close>, \<^verbatim>\<open>UnaryOp\<close> and \<^verbatim>\<open>Constant\<close>, and the
  message \<^verbatim>\<open>_eval\<close> raises for each.
\<close>

definition disallowed :: "node \<Rightarrow> bool" where
  "disallowed n =
     (case n of Expression b \<Rightarrow> False | BinOp l op r \<Rightarrow> False | UnaryOp op x \<Rightarrow> False
      | Constant c \<Rightarrow> False | _ \<Rightarrow> True)"

definition disallowed_message :: "node \<Rightarrow> string" where
  "disallowed_message n =
     (case n of Call f as ks \<Rightarrow> ''Function calls not allowed''
      | _ \<Rightarrow> ''Unsupported expression: '' @ class_repr (node_name n))"

text \<open>The constants \<^verbatim>\<open>_eval\<close> returns: \<^verbatim>\<open>int\<close>, \<^verbatim>\<open>float\<close>, \<^verbatim>\<open>complex\<close> and \<^verbatim>\<open>bool\<close>.\<close>

definition numeric_const :: "const \<Rightarrow> bool" where
  "numeric_const c =
     (case c of CInt n \<Rightarrow> True | CFloat x \<Rightarrow> True | CComplex re im \<Rightarrow> True
      | CBool b \<Rightarrow> True | _ \<Rightarrow> False)"

text \<open>A zero of any numeric type, as a right operand.\<close>

definition is_zero_val :: "val \<Rightarrow> bool" where
  "is_zero_val v =
     (case v of VBool b \<Rightarrow> (b = False) | VInt n \<Rightarrow> n = 0 | VFloat x \<Rightarrow> f_is_zero x
      | VComplex re im \<Rightarrow> f_is_zero re \<and> f_is_zero im)"

text \<open>
  \<open>applies rt n op l r\<close>: the evaluation of the tree \<open>n\<close> reaches the point where the
  function of the binary operator \<open>op\<close> is called on the operand values \<open>l\<close> and \<open>r\<close>.
\<close>

inductive applies :: "runtime \<Rightarrow> node \<Rightarrow> operator \<Rightarrow> val \<Rightarrow> val \<Rightarrow> bool" where
  applies_here:
    "eval_node rt left = Inr l \<Longrightarrow> eval_node rt right = Inr r
     \<Longrightarrow> map_of ALLOWED_OPERATORS_binary op = Some f
     \<Longrightarrow> applies rt (BinOp left op right) op l r"
| applies_left:
    "applies rt left op l r \<Longrightarrow> applies rt (BinOp left op' right) op l r"
| applies_right:
    "eval_node rt left = Inr lv \<Longrightarrow> applies rt right op l r
     \<Longrightarrow> applies rt (BinOp left op' right) op l r"
| applies_operand:
    "applies rt operand op l r \<Longrightarrow> applies rt (UnaryOp u operand) op l r"
| applies_body:
    "applies rt body op l r \<Longrightarrow> applies rt (Expression body) op l r"

text \<open>
  The characters of the keypad's expressions: digits, the point, white space and the
  operator characters.
\<close>

definition keypad_char :: "char \<Rightarrow> bool" where
  "keypad_char c = (is_digit c \<or> isspace c \<or> c \<in> set ''.+-*/%^()'')"

text \<open>
  A runtime to run the model on concrete inputs. Where a theorem below depends on an
  inexact function, the model is given the value CPython 3.11 computes on x86-64 Linux:
  \<^verbatim>\<open>(-1) ** 0.5\<close> is \<^verbatim>\<open>(6.123233995736766e-17+1j)\<close> and \<^verbatim>\<open>repr(2.5)\<close> is \<^verbatim>\<open>'2.5'\<close>. At all other
  arguments the inexact functions of this runtime return NaN.
\<close>

definition sample_runtime :: runtime where
  "sample_runtime =
     \<lparr> rt_pow = (\<lambda>x y. NaN),
       rt_complex = (\<lambda>op a b.
         if op = Pow_op \<and> a = (Fin (- 1) 0, PZero) \<and> b = (Fin 1 (- 1), PZero)
         then (Fin 4967757600021511 (- 106), Fin 1 0) else (NaN, NaN)),
       rt_repr = (\<lambda>v. if v = VFloat (Fin 5 (- 1)) then ''2.5'' else ''nan''),
       rt_max_str_digits = 4300 \<rparr>"

subsection \<open>Stack depth and memory\<close>

text \<open>
  \<open>eval_node\<close> and \<open>ast_parse\<close> have all the stack and memory they ask for. CPython has not:
  every call of \<^verbatim>\<open>_eval\<close> is a Python frame and \<^verbatim>\<open>RecursionError\<close> is raised when the frames
  allowed by the recursion limit are used up; \<^verbatim>\<open>ast.parse\<close> raises \<^verbatim>\<open>RecursionError\<close> or \<^verbatim>\<open>MemoryError\<close>
  on a text nested too deeply for its own recursion; and a function of the whitelist raises
  \<^verbatim>\<open>MemoryError\<close> when its result cannot be allocated. \<^verbatim>\<open>safe_eval\<close> catches none of these.

  The limits are parameters:
  \<^item> \<open>lim_parse t\<close>: how \<^verbatim>\<open>ast.parse\<close> runs out of stack or memory on the text \<open>t\<close>, if it does;
  \<^item> \<open>lim_frames\<close>: the Python frames left when \<^verbatim>\<open>safe_eval\<close> calls \<^verbatim>\<open>_eval\<close>;
  \<^item> \<open>lim_alloc v\<close>: whether the result \<open>v\<close> of a whitelisted function can be allocated.
\<close>

datatype exhaustion = StackExhausted | MemoryExhausted

definition exhausted :: "exhaustion \<Rightarrow> py_exc" where
  "exhausted x = (case x of StackExhausted \<Rightarrow> RecursionError | MemoryExhausted \<Rightarrow> MemoryError)"

record limits =
  lim_parse :: "string \<Rightarrow> exhaustion option"
  lim_frames :: nat
  lim_alloc :: "val \<Rightarrow> bool"

definition allocated :: "(val \<Rightarrow> bool) \<Rightarrow> py_exc + val \<Rightarrow> py_exc + val" where
  "allocated ok r =
     (case r of Inl e \<Rightarrow> Inl e | Inr v \<Rightarrow> if ok v then Inr v else Inl MemoryError)"

text \<open>
  \<^verbatim>\<open>_eval\<close> with \<open>d\<close> frames left: the call itself takes one. A node that is no \<^verbatim>\<open>Expression\<close>,
  \<^verbatim>\<open>BinOp\<close> or \<^verbatim>\<open>UnaryOp\<close> reaches the test \<^verbatim>\<open>isinstance(node, ast.Num)\<close>, which runs the Python
  method \<^verbatim>\<open>_ABC.__instancecheck__\<close> and takes one more frame.
\<close>

fun eval_node_within :: "(val \<Rightarrow> bool) \<Rightarrow> nat \<Rightarrow> runtime \<Rightarrow> node \<Rightarrow> py_exc + val" where
  "eval_node_within ok 0 rt n = Inl RecursionError"
| "eval_node_within ok (Suc d) rt (Expression body) = eval_node_within ok d rt body"
| "eval_node_within ok (Suc d) rt (BinOp left op right) =
     (case eval_node_within ok d rt left of Inl e \<Rightarrow> Inl e
      | Inr l \<Rightarrow>
         (case eval_node_within ok d rt right of Inl e \<Rightarrow> Inl e
          | Inr r \<Rightarrow>
             (case map_of ALLOWED_OPERATORS_binary op of
                Some f \<Rightarrow> allocated ok (f rt l r)
              | None \<Rightarrow> Inl (ValueError (''Unsupported binary operator: ''
                                           @ class_repr (operator_name op))))))"
| "eval_node_within ok (Suc d) rt (UnaryOp op operand) =
     (case eval_node_within ok d rt operand of Inl e \<Rightarrow> Inl e
      | Inr v \<Rightarrow>
         (case map_of ALLOWED_OPERATORS_unary op of
            Some f \<Rightarrow> allocated ok (f v)
          | None \<Rightarrow> Inl (ValueError (''Unsupported unary operator: ''
                                       @ class_repr (unaryop_name op)))))"
| "eval_node_within ok (Suc d) rt n = (if d = 0 then Inl RecursionError else eval_node rt n)"

text \<open>\<^verbatim>\<open>safe_eval\<close> under the limits \<open>lim\<close>.\<close>

definition safe_eval_within ::
    "limits \<Rightarrow> runtime \<Rightarrow> (string \<Rightarrow> py_exc + node) \<Rightarrow> string \<Rightarrow> py_exc + val" where
  "safe_eval_within lim rt parse ex =
     (case lim_parse lim (replace_caret ex) of
        Some x \<Rightarrow> Inl (exhausted x)
      | None \<Rightarrow>
         (case parse (replace_caret ex) of
            Inl e \<Rightarrow> (if e = SyntaxError then Inl (ValueError ''Syntax error'') else Inl e)
          | Inr node \<Rightarrow>
             (case eval_node_within (lim_alloc lim) (lim_frames lim) rt node of
                Inl e \<Rightarrow> Inl e | Inr result \<Rightarrow> Inr (display result))))"

text \<open>The frames a tree needs when no exception cuts its evaluation short.\<close>

fun frames_needed :: "node \<Rightarrow> nat" where
  "frames_needed (Expression body) = Suc (frames_needed body)"
| "frames_needed (BinOp left op right) = Suc (max (frames_needed left) (frames_needed right))"
| "frames_needed (UnaryOp op operand) = Suc (frames_needed operand)"
| "frames_needed n = 2"

text \<open>
  Limits for running the model on a short text: the default recursion limit of 1000 frames,
  a parser and an allocator that do not fail.
\<close>

definition sample_limits :: limits where
  "sample_limits =
     \<lparr> lim_parse = (\<lambda>t. None), lim_frames = 1000, lim_alloc = (\<lambda>v. True) \<rparr>"

text \<open>What the buffer holds after a confirm that reaches the evaluator.\<close>

definition shown :: "runtime \<Rightarrow> (string \<Rightarrow> py_exc + node) \<Rightarrow> string \<Rightarrow> string" where
  "shown rt prs e =
     (case safe_eval rt prs e of Inl x \<Rightarrow> ''Error''
      | Inr res \<Rightarrow> (case py_str rt res of Inl x \<Rightarrow> ''Error'' | Inr s \<Rightarrow> s))"

subsection \<open>The text of a float and of a complex number\<close>

text \<open>
  \<^verbatim>\<open>repr\<close> belongs to CPython, and the digits it prints for a finite float depend on the
  build (\<^verbatim>\<open>sys.float_repr_style\<close>: the shortest digits that read back as the same float, or
  17 significant digits); \<open>rt_repr\<close> stands for it. What every build prints is a sign and
  a decimal text: digits, then possibly a point and digits, then possibly an exponent
  (\<^verbatim>\<open>e\<close>, a sign, digits). \<open>number_text t\<close> says that \<open>t\<close> is such a text; one without point
  and exponent has at most 17 digits and no leading zero. \<open>text_const t\<close> is the constant
  that the tokenizer reads from it.
\<close>

definition sign_text :: "pyfloat \<Rightarrow> string" where
  "sign_text x = (if f_signbit x then ''-'' else [])"

definition number_text :: "string \<Rightarrow> bool" where
  "number_text t =
     (lit_body t = t \<and> lit_int t \<noteq> [] \<and> list_all is_digit (lit_int t)
      \<and> list_all is_digit (lit_frac t)
      \<and> (if lit_point t = [] then True else lit_frac t \<noteq> [])
      \<and> (if lit_exponent t = [] then True
          else lit_exp_digits t \<noteq> [] \<and> list_all is_digit (lit_exp_digits t))
      \<and> (if lit_is_integer t
          then length t \<le> 17 \<and> (if hd t = CHR ''0'' then t = ''0'' else True)
          else True))"

definition text_const :: "string \<Rightarrow> const" where
  "text_const t = (if lit_is_integer t then CInt (int (digits_value t)) else CFloat (lit_float t))"

text \<open>\<open>continues_all acc cs\<close>: each character of \<open>cs\<close> in turn continues the number \<open>acc\<close>.\<close>

fun continues_all :: "string \<Rightarrow> string \<Rightarrow> bool" where
  "continues_all acc [] = True"
| "continues_all acc (c # cs) = (continues_number acc c \<and> continues_all (acc @ [c]) cs)"

text \<open>
  \<open>part_text x t\<close>: \<open>t\<close> is what \<^verbatim>\<open>repr\<close> prints for the magnitude of \<open>x\<close>. For a finite \<open>x\<close> it
  is a decimal text that the float reader of the parser reads as \<open>|x|\<close>, which is the
  guarantee \<^verbatim>\<open>repr\<close> gives; for an infinity it is \<^verbatim>\<open>inf\<close> and for NaN it is \<^verbatim>\<open>nan\<close>.
\<close>

definition is_finite :: "pyfloat \<Rightarrow> bool" where
  "is_finite x = (\<not> f_is_nan x \<and> \<not> f_is_inf x)"

definition special_text :: "pyfloat \<Rightarrow> string" where
  "special_text x = (if f_is_nan x then ''nan'' else ''inf'')"

definition part_text :: "pyfloat \<Rightarrow> string \<Rightarrow> bool" where
  "part_text x t =
     (if is_finite x then number_text t \<and> lit_float t = f_abs x else t = special_text x)"

text \<open>
  \<^verbatim>\<open>complex_repr\<close> of \<^verbatim>\<open>complexobject.c\<close>, given the texts \<open>tr\<close> and \<open>ti\<close> of the magnitudes of the
  two parts: the imaginary part alone when the real part is \<open>+0.0\<close>, and otherwise both
  parts in parentheses, the imaginary one always with its sign.
\<close>

definition complex_text :: "pyfloat \<Rightarrow> pyfloat \<Rightarrow> string \<Rightarrow> string \<Rightarrow> string" where
  "complex_text re im tr ti =
     (if re = PZero then sign_text im @ ti @ ''j''
      else ''('' @ sign_text re @ tr @ (if f_signbit im then ''-'' else ''+'') @ ti @ ''j)'')"

text \<open>
  \<^verbatim>\<open>_Py_c_sum\<close> and \<^verbatim>\<open>_Py_c_diff\<close> of \<^verbatim>\<open>complexobject.c\<close> add and subtract part by part.
\<close>

definition c_sum :: "cnum \<Rightarrow> cnum \<Rightarrow> cnum" where
  "c_sum a b = (f_add (fst a) (fst b), f_add (snd a) (snd b))"

definition c_diff :: "cnum \<Rightarrow> cnum \<Rightarrow> cnum" where
  "c_diff a b = (f_sub (fst a) (fst b), f_sub (snd a) (snd b))"

text \<open>
  \<open>is_double x\<close>: the term \<open>x\<close> is a double, that is, rounding its value to a double gives
  \<open>x\<close> back (a term \<open>Fin m e\<close> with an even or too long mantissa is none). \<open>f_eq\<close> is \<^verbatim>\<open>==\<close> on
  floats: the two zeros are equal, NaN is equal to nothing.
\<close>

definition is_double :: "pyfloat \<Rightarrow> bool" where
  "is_double x = (case x of Fin m e \<Rightarrow> round_ratio (fnum x) (fden x) = x | _ \<Rightarrow> True)"

definition f_eq :: "pyfloat \<Rightarrow> pyfloat \<Rightarrow> bool" where
  "f_eq x y = (if f_is_zero x then f_is_zero y else x = y \<and> \<not> f_is_nan x)"

text \<open>
  A runtime for running the model on texts with float and complex results: complex sums
  and differences as above, and the \<^verbatim>\<open>repr\<close> of CPython for three values.
\<close>

definition printing_runtime :: runtime where
  "printing_runtime = sample_runtime
     \<lparr> rt_complex := (\<lambda>op a b. if op = Add then c_sum a b else if op = Sub then c_diff a b
                              else rt_complex sample_runtime op a b),
       rt_repr := (\<lambda>v. if v = VFloat (Fin 5 (- 1)) then ''2.5''
                        else if v = VComplex (Fin 4967757600021511 (- 106)) (Fin 1 0)
                          then ''(6.123233995736766e-17+1j)''
                        else if v = VComplex PZero PInf then ''infj'' else ''nan'') \<rparr>"

section \<open>Evaluation rules\<close>

text \<open>The definitions that the simplifier unfolds to run the model on a concrete input.\<close>

lemmas round_ratio_eval =
  round_ratio_def pack_def normal_def scaled_mantissa_def round_half_even_def
  float_exp_def pow2_le_def fnum_def fden_def

lemmas literal_eval = number_token_def lit_wellformed_def lit_is_integer_def lit_float_def
  decimal_float_def lit_exp_value_def lit_exp_digits_def lit_frac_def lit_point_def lit_int_def
  lit_exponent_def lit_mantissa_def lit_body_def lit_imag_def is_sign_char_def is_imag_char_def
  is_exp_char_def num_digits_def digits_value_def is_digit_def digit_val_def over_digit_limit_def

lemmas tokenize_eval = emit_def emit_number_def continues_number_def is_blank_def is_newline_def
  is_name_char_def is_name_start_def

lemmas grammar_eval = ast_parse_def name_atom_def py_keywords_def is_STRING_def string_of_def
  sum_op_def term_op_def unary_op_def arg_skip_def make_call_def

lemmas parser_eval = grammar_eval tokenize_eval literal_eval

lemmas float_eval = f_is_nan_def f_is_inf_def f_is_zero_def f_signbit_def f_lt0_def f_gt0_def
  f_zero_def f_inf_def f_neg_def f_abs_def f_add_def f_sub_def f_mul_def f_div_def c_fmod_def
  f_is_integer_def f_to_int_def f_is_odd_integer_def f_one_def f_abs_gt1_def

lemmas arith_eval = py_add_def py_sub_def py_mul_def py_truediv_def py_mod_def py_pow_def
  py_neg_def py_pos_def float_div_def long_true_divide_def float_rem_def rem_adjust_def
  float_pow_def pow_result_def complex_op_def complex_result_def float_op_def to_float_def
  to_complex_def int_to_float_def int_of_def is_float_def is_complex_def c_is_zero_def
  c_has_inf_def vcomplex_def

lemmas walk_eval = safe_eval_def display_def ALLOWED_OPERATORS_binary_def
  ALLOWED_OPERATORS_unary_def isinstance_Num_def isinstance_int_float_def const_value_def
  class_repr_def operator_name_def unaryop_name_def node_name_def

lemmas failure_eval = failure_of_def starts_with_def typed_result_def

lemmas text_eval = is_finite_def sign_text_def part_text_def number_text_def special_text_def
  complex_text_def is_double_def

section \<open>Disallowed constructs\<close>

lemma eval_node_disallowed:
  "disallowed n \<Longrightarrow> eval_node rt n = Inl (ValueError (disallowed_message n))"
  by (cases n) (simp_all add: disallowed_def disallowed_message_def)

lemma failure_of_disallowed:
  "failure_of (ValueError (disallowed_message n)) = Some DisallowedConstruct"
  by (cases n) (simp_all add: disallowed_message_def failure_eval)

text \<open>
  Claim C1. When the text parses to a call, a name, an attribute access or a node of any
  class other than \<^verbatim>\<open>Constant\<close>, \<^verbatim>\<open>UnaryOp\<close> and \<^verbatim>\<open>BinOp\<close>, \<^verbatim>\<open>safe_eval\<close> raises the \<^verbatim>\<open>ValueError\<close>
  of a disallowed construct. The message depends on the class of the node alone: for a
  call it is the same whatever the callee and the arguments are, none of which is
  evaluated.
\<close>

theorem C1_disallowed_construct:
  assumes "prs (replace_caret s) = Inr (Expression n)" and "disallowed n"
  shows "safe_eval rt prs s = Inl (ValueError (disallowed_message n))
         \<and> failure_of (ValueError (disallowed_message n)) = Some DisallowedConstruct
         \<and> eval_node rt (Call f args keywords) = Inl (ValueError ''Function calls not allowed'')"
  using assms by (simp add: safe_eval_def eval_node_disallowed failure_of_disallowed)

theorem C1_disallowed_construct_witness:
  "ast_parse 4300 (replace_caret (''__import__('' @ [CHR 0x27] @ ''os'' @ [CHR 0x27] @ '')''))
     = Inr (Expression (Call (Name ''__import__'') [Constant (CStr ''os'')] []))
   \<and> disallowed (Call (Name ''__import__'') [Constant (CStr ''os'')] [])
   \<and> safe_eval sample_runtime (ast_parse 4300)
        (''__import__('' @ [CHR 0x27] @ ''os'' @ [CHR 0x27] @ '')'')
       = Inl (ValueError ''Function calls not allowed'')
   \<and> failure_of (ValueError ''Function calls not allowed'') = Some DisallowedConstruct"
proof -
  have p: "ast_parse 4300 (replace_caret (''__import__('' @ [CHR 0x27] @ ''os'' @ [CHR 0x27] @ '')''))
             = Inr (Expression (Call (Name ''__import__'') [Constant (CStr ''os'')] []))"
    by (simp add: parser_eval)
  have d: "disallowed (Call (Name ''__import__'') [Constant (CStr ''os'')] [])"
    by (simp add: disallowed_def)
  note C1_disallowed_construct [where prs = "ast_parse 4300" and rt = sample_runtime
      and s = "''__import__('' @ [CHR 0x27] @ ''os'' @ [CHR 0x27] @ '')''"
      and n = "Call (Name ''__import__'') [Constant (CStr ''os'')] []", OF p d]
  then show ?thesis using p d by (simp add: disallowed_message_def)
qed

section \<open>Precedence, the caret and literals\<close>

text \<open>
  Claim C4. \<^verbatim>\<open>2+3*4\<close> evaluates to 14 and \<^verbatim>\<open>(1+2)*3\<close> to 9, on every runtime: multiplication
  binds tighter than addition, and parentheses group.
\<close>

theorem C4_precedence_and_grouping:
  "safe_eval rt (ast_parse L) ''2+3*4'' = Inr (VInt 14)
   \<and> safe_eval rt (ast_parse L) ''(1+2)*3'' = Inr (VInt 9)
   \<and> ast_parse L ''2+3*4''
       = Inr (Expression (BinOp (Constant (CInt 2)) Add
                            (BinOp (Constant (CInt 3)) Mult (Constant (CInt 4)))))
   \<and> ast_parse L ''(1+2)*3''
       = Inr (Expression (BinOp (BinOp (Constant (CInt 1)) Add (Constant (CInt 2))) Mult
                            (Constant (CInt 3))))"
proof -
  have a: "ast_parse L ''2+3*4''
             = Inr (Expression (BinOp (Constant (CInt 2)) Add
                                  (BinOp (Constant (CInt 3)) Mult (Constant (CInt 4)))))"
    by (simp add: parser_eval)
  have b: "ast_parse L ''(1+2)*3''
             = Inr (Expression (BinOp (BinOp (Constant (CInt 1)) Add (Constant (CInt 2))) Mult
                                  (Constant (CInt 3))))"
    by (simp add: parser_eval)
  have c: "safe_eval rt (ast_parse L) ''2+3*4'' = Inr (VInt 14)"
    by (simp add: a walk_eval arith_eval)
  have d: "safe_eval rt (ast_parse L) ''(1+2)*3'' = Inr (VInt 9)"
    by (simp add: b walk_eval arith_eval)
  from a b c d show ?thesis by simp
qed

lemma replace_caret_no_caret: "CHR ''^'' \<notin> set (replace_caret s)"
  by (induction s) auto

lemma replace_caret_id: "CHR ''^'' \<notin> set s \<Longrightarrow> replace_caret s = s"
  by (induction s) auto

lemma replace_caret_idem: "replace_caret (replace_caret s) = replace_caret s"
  by (simp add: replace_caret_id replace_caret_no_caret)

text \<open>
  Claim C5. Replacing every caret of the text by \<^verbatim>\<open>**\<close> beforehand does not change what
  \<^verbatim>\<open>safe_eval\<close> returns, whatever the parser and the runtime; and \<^verbatim>\<open>2^3\<close> evaluates to 8.
\<close>

theorem C5_caret_is_power:
  "safe_eval rt prs s = safe_eval rt prs (replace_caret s)
   \<and> replace_caret ''2^3'' = ''2**3''
   \<and> safe_eval rt (ast_parse L) ''2^3'' = Inr (VInt 8)"
proof -
  have a: "safe_eval rt prs s = safe_eval rt prs (replace_caret s)"
    by (simp add: safe_eval_def replace_caret_idem)
  have b: "safe_eval rt (ast_parse L) ''2^3'' = Inr (VInt 8)"
    by (simp add: parser_eval walk_eval arith_eval)
  from a b show ?thesis by simp
qed

text \<open>
  Claim C8, as the code has it. A \<^verbatim>\<open>Constant\<close> node evaluates to its value when the value is
  an \<^verbatim>\<open>int\<close>, a \<^verbatim>\<open>float\<close>, a \<^verbatim>\<open>complex\<close> (accepted by the \<^verbatim>\<open>ast.Num\<close> check) or a \<^verbatim>\<open>bool\<close> (an
  instance of \<^verbatim>\<open>int\<close>), and raises the \<^verbatim>\<open>ValueError\<close> of an unsupported literal for a string,
  a bytes literal, \<^verbatim>\<open>None\<close> and the ellipsis. A text that parses to such a node gives that
  value, a float without fractional part as an \<^verbatim>\<open>int\<close>.
\<close>

theorem C8_literals:
  "eval_node rt (Constant c)
     = (if numeric_const c then Inr (const_value c)
        else Inl (ValueError ''Constants other than numbers not allowed''))
   \<and> failure_of (ValueError ''Constants other than numbers not allowed'')
       = Some UnsupportedLiteral
   \<and> (prs (replace_caret s) = Inr (Expression (Constant c)) \<longrightarrow>
        safe_eval rt prs s
          = (if numeric_const c then Inr (display (const_value c))
             else Inl (ValueError ''Constants other than numbers not allowed'')))"
  by (cases c)
     (simp_all add: numeric_const_def isinstance_Num_def isinstance_int_float_def safe_eval_def
        failure_eval)

theorem C8_literals_witness:
  "ast_parse 4300 (replace_caret ''2.5'') = Inr (Expression (Constant (CFloat (Fin 5 (- 1)))))
   \<and> safe_eval sample_runtime (ast_parse 4300) ''2.5'' = Inr (VFloat (Fin 5 (- 1)))
   \<and> ast_parse 4300 (replace_caret ''...'') = Inr (Expression (Constant CEllipsis))
   \<and> safe_eval sample_runtime (ast_parse 4300) ''...''
       = Inl (ValueError ''Constants other than numbers not allowed'')"
proof -
  have p: "ast_parse 4300 (replace_caret ''2.5'') = Inr (Expression (Constant (CFloat (Fin 5 (- 1)))))"
    by (simp add: parser_eval round_ratio_eval)
  have q: "ast_parse 4300 (replace_caret ''...'') = Inr (Expression (Constant CEllipsis))"
    by (simp add: parser_eval)
  note a = C8_literals [where prs = "ast_parse 4300" and rt = sample_runtime and s = "''2.5''"
      and c = "CFloat (Fin 5 (- 1))"]
  note b = C8_literals [where prs = "ast_parse 4300" and rt = sample_runtime and s = "''...''"
      and c = CEllipsis]
  from a p have "safe_eval sample_runtime (ast_parse 4300) ''2.5'' = Inr (VFloat (Fin 5 (- 1)))"
    by (simp add: numeric_const_def display_def const_value_def float_eval fnum_def fden_def)
  moreover from b q have "safe_eval sample_runtime (ast_parse 4300) ''...''
       = Inl (ValueError ''Constants other than numbers not allowed'')"
    by (simp add: numeric_const_def)
  ultimately show ?thesis using p q by simp
qed

text \<open>
  The claim as the specification states it fails on the text \<^verbatim>\<open>True\<close>: it parses to a literal
  that is neither an integer nor a floating-point constant, and evaluates to \<^verbatim>\<open>True\<close>.
\<close>

theorem C8_bool_literal_counterexample:
  "ast_parse 4300 (replace_caret ''True'') = Inr (Expression (Constant (CBool True)))
   \<and> safe_eval sample_runtime (ast_parse 4300) ''True'' = Inr (VBool True)"
  by (simp add: parser_eval walk_eval)

section \<open>Integral floats\<close>

lemma f_to_int_exact: "f_is_integer x \<Longrightarrow> fnum x = f_to_int x * fden x"
proof (cases x)
  case (Fin m e)
  have pos: "0 < fden x" by (simp add: fden_def Fin)
  assume "f_is_integer x"
  then have dv: "fnum x mod fden x = 0" by (simp add: f_is_integer_def Fin)
  then have "fden x dvd fnum x" by (simp add: dvd_eq_mod_eq_0)
  then have "fden x dvd \<bar>fnum x\<bar>" by simp
  then have "\<bar>fnum x\<bar> div fden x * fden x = \<bar>fnum x\<bar>" by simp
  then have "sgn (fnum x) * (\<bar>fnum x\<bar> div fden x) * fden x = sgn (fnum x) * \<bar>fnum x\<bar>"
    by (simp add: mult.assoc)
  then show ?thesis by (simp add: f_to_int_def mult_sgn_abs)
qed (simp_all add: f_to_int_def fnum_def)

text \<open>
  Claim C6. When the tree walk succeeds with the value \<open>r\<close>, \<^verbatim>\<open>safe_eval\<close> returns \<open>r\<close>
  itself, unless \<open>r\<close> is a float for which \<^verbatim>\<open>is_integer()\<close> holds: then it returns the \<^verbatim>\<open>int\<close>
  \<open>k\<close> of the same value (\<open>fnum x / fden x\<close> is the value of the float \<open>x\<close>). \<^verbatim>\<open>10/2\<close> gives
  the integer 5 and \<^verbatim>\<open>10/4\<close> the float 2.5, which is \<open>5 * 2 ^ -1\<close>.
\<close>

theorem C6_integral_float_as_int:
  "(prs (replace_caret s) = Inr n \<and> eval_node rt n = Inr r \<longrightarrow>
      safe_eval rt prs s
        = Inr (case r of VFloat x \<Rightarrow> if f_is_integer x then VInt (f_to_int x) else r | _ \<Rightarrow> r))
   \<and> (f_is_integer x \<longrightarrow> fnum x = f_to_int x * fden x)
   \<and> safe_eval rt (ast_parse L) ''10/2'' = Inr (VInt 5)
   \<and> safe_eval rt (ast_parse L) ''10/4'' = Inr (VFloat (Fin 5 (- 1)))"
proof -
  have a: "prs (replace_caret s) = Inr n \<and> eval_node rt n = Inr r \<longrightarrow>
      safe_eval rt prs s
        = Inr (case r of VFloat x \<Rightarrow> if f_is_integer x then VInt (f_to_int x) else r | _ \<Rightarrow> r)"
    by (simp add: safe_eval_def display_def)
  have b: "safe_eval rt (ast_parse L) ''10/2'' = Inr (VInt 5)"
    by (simp add: parser_eval walk_eval arith_eval float_eval round_ratio_eval)
  have c: "safe_eval rt (ast_parse L) ''10/4'' = Inr (VFloat (Fin 5 (- 1)))"
    by (simp add: parser_eval walk_eval arith_eval float_eval round_ratio_eval)
  from a b c f_to_int_exact show ?thesis by blast
qed

theorem C6_integral_float_as_int_witness:
  "ast_parse 4300 (replace_caret ''10/2'')
     = Inr (Expression (BinOp (Constant (CInt 10)) Div (Constant (CInt 2))))
   \<and> eval_node sample_runtime (Expression (BinOp (Constant (CInt 10)) Div (Constant (CInt 2))))
       = Inr (VFloat (Fin 5 0))
   \<and> f_is_integer (Fin 5 0) \<and> f_to_int (Fin 5 0) = 5 \<and> fnum (Fin 5 0) = 5 * fden (Fin 5 0)
   \<and> safe_eval sample_runtime (ast_parse 4300) ''10/2'' = Inr (VInt 5)"
proof -
  have p: "ast_parse 4300 (replace_caret ''10/2'')
             = Inr (Expression (BinOp (Constant (CInt 10)) Div (Constant (CInt 2))))"
    by (simp add: parser_eval)
  have e: "eval_node sample_runtime (Expression (BinOp (Constant (CInt 10)) Div (Constant (CInt 2))))
             = Inr (VFloat (Fin 5 0))"
    by (simp add: walk_eval arith_eval float_eval round_ratio_eval)
  have i: "f_is_integer (Fin 5 0)" "f_to_int (Fin 5 0) = 5"
    by (simp_all add: float_eval fnum_def fden_def)
  note C6_integral_float_as_int [where prs = "ast_parse 4300" and rt = sample_runtime
      and s = "''10/2''" and x = "Fin 5 0" and r = "VFloat (Fin 5 0)" and L = 4300
      and n = "Expression (BinOp (Constant (CInt 10)) Div (Constant (CInt 2)))"]
  with p e i show ?thesis by simp
qed

section \<open>The confirm action of the window\<close>

lemma is_Exception_all: "is_Exception e"
  by (cases e) (simp_all add: is_Exception_def)

lemma evaluate_nonempty:
  "strip (expr self) \<noteq> [] \<Longrightarrow>
     evaluate rt prs self = Inr (self\<lparr>expr := shown rt prs (strip (expr self))\<rparr>)"
  by (simp add: evaluate_def evaluate_try_def shown_def is_Exception_all
      split: sum.splits)

lemma evaluate_empty: "strip (expr self) = [] \<Longrightarrow> evaluate rt prs self = Inr self"
  by (simp add: evaluate_def)

lemmas gui_eval = strip_def isspace_def shown_def py_str_def str_int_def dec.simps digit_char_def

text \<open>
  Claim C9, as the code has it. When the buffer is not empty after stripping white space,
  the confirm action calls \<^verbatim>\<open>safe_eval\<close> on the stripped buffer and sets the buffer to \<^verbatim>\<open>str\<close> of
  the result, or to \<^verbatim>\<open>Error\<close> when \<^verbatim>\<open>safe_eval\<close> or \<^verbatim>\<open>str\<close> raises.
\<close>

theorem C9_confirm_replaces_buffer:
  assumes "strip (expr self) \<noteq> []"
  shows "evaluate rt prs self
           = Inr (self\<lparr>expr :=
                (case safe_eval rt prs (strip (expr self)) of Inl x \<Rightarrow> ''Error''
                 | Inr res \<Rightarrow> (case py_str rt res of Inl x \<Rightarrow> ''Error'' | Inr s \<Rightarrow> s))\<rparr>)"
  using evaluate_nonempty [OF assms] by (simp add: shown_def)

theorem C9_confirm_replaces_buffer_witness:
  "strip (expr \<lparr>expr = ''2+3*4''\<rparr>) \<noteq> []
   \<and> evaluate sample_runtime (ast_parse 4300) \<lparr>expr = ''2+3*4''\<rparr> = Inr \<lparr>expr = ''14''\<rparr>"
proof -
  have s: "strip (expr \<lparr>expr = ''2+3*4''\<rparr>) = ''2+3*4''"
    by (simp add: strip_def isspace_def)
  have v: "safe_eval sample_runtime (ast_parse 4300) ''2+3*4'' = Inr (VInt 14)"
    by (simp add: parser_eval walk_eval arith_eval)
  have t: "py_str sample_runtime (VInt 14) = Inr ''14''"
    by (simp add: py_str_def str_int_def dec.simps digit_char_def over_digit_limit_def
        sample_runtime_def)
  have n: "strip (expr \<lparr>expr = ''2+3*4''\<rparr>) \<noteq> []"
    unfolding s by simp
  from C9_confirm_replaces_buffer [OF n, of sample_runtime "ast_parse 4300"] s v t n
  show ?thesis by simp
qed

text \<open>
  The claim as the specification states it, for every buffer, fails on the empty buffer:
  the confirm action returns at once and leaves the buffer empty, where a call of the
  evaluator on the buffer would have raised and put \<^verbatim>\<open>Error\<close> there.
\<close>

theorem C9_empty_buffer_counterexample:
  "evaluate sample_runtime (ast_parse 4300) \<lparr>expr = []\<rparr> = Inr \<lparr>expr = []\<rparr>
   \<and> safe_eval sample_runtime (ast_parse 4300) [] = Inl (ValueError ''Syntax error'')"
  by (simp add: evaluate_def strip_def parser_eval safe_eval_def)

text \<open>
  Claim C10. The confirm action never lets an exception out. When the buffer is empty after
  stripping white space it returns with the buffer as it was, whatever the parser and the
  runtime are: the evaluator is not called. Otherwise every exception of \<^verbatim>\<open>safe_eval\<close>, of a
  typed kind or not, is caught and the buffer becomes \<^verbatim>\<open>Error\<close>.
\<close>

theorem C10_confirm_never_raises:
  "(\<exists>self'. evaluate rt prs self = Inr self')
   \<and> (strip (expr self) = [] \<longrightarrow> evaluate rt prs self = Inr self)
   \<and> (strip (expr self) \<noteq> [] \<and> safe_eval rt prs (strip (expr self)) = Inl e \<longrightarrow>
        evaluate rt prs self = Inr (self\<lparr>expr := ''Error''\<rparr>))"
proof (cases "strip (expr self) = []")
  case True
  then show ?thesis by (simp add: evaluate_empty)
next
  case False
  then show ?thesis by (auto simp: evaluate_nonempty shown_def)
qed

theorem C10_confirm_never_raises_witness:
  "strip (expr \<lparr>expr = ''1j%0''\<rparr>) \<noteq> []
   \<and> safe_eval sample_runtime (ast_parse 4300) (strip (expr \<lparr>expr = ''1j%0''\<rparr>)) = Inl TypeError
   \<and> failure_of TypeError = None
   \<and> evaluate sample_runtime (ast_parse 4300) \<lparr>expr = ''1j%0''\<rparr> = Inr \<lparr>expr = ''Error''\<rparr>
   \<and> strip (expr \<lparr>expr = '' ''\<rparr>) = []
   \<and> evaluate sample_runtime (ast_parse 4300) \<lparr>expr = '' ''\<rparr> = Inr \<lparr>expr = '' ''\<rparr>"
proof -
  have s: "strip (expr \<lparr>expr = ''1j%0''\<rparr>) = ''1j%0''"
    by (simp add: strip_def isspace_def)
  have v: "safe_eval sample_runtime (ast_parse 4300) ''1j%0'' = Inl TypeError"
    by (simp add: parser_eval walk_eval arith_eval float_eval round_ratio_eval)
  have b: "strip (expr \<lparr>expr = '' ''\<rparr>) = []"
    by (simp add: strip_def isspace_def)
  note a = C10_confirm_never_raises [of sample_runtime "ast_parse 4300" "\<lparr>expr = ''1j%0''\<rparr>"
      TypeError]
  note c = C10_confirm_never_raises [of sample_runtime "ast_parse 4300" "\<lparr>expr = '' ''\<rparr>"
      TypeError]
  from a s v have "evaluate sample_runtime (ast_parse 4300) \<lparr>expr = ''1j%0''\<rparr>
      = Inr \<lparr>expr = ''Error''\<rparr>" by simp
  moreover from c b have "evaluate sample_runtime (ast_parse 4300) \<lparr>expr = '' ''\<rparr>
      = Inr \<lparr>expr = '' ''\<rparr>" by simp
  ultimately show ?thesis using s v b by (simp add: failure_of_def)
qed

section \<open>Division and modulo by zero\<close>

lemma round_ratio_zero: "round_ratio 0 q = PZero"
  by (simp add: round_ratio_def)

lemma to_float_error: "to_float v = Inl e \<Longrightarrow> e = OverflowError"
  by (auto simp: to_float_def int_to_float_def split: val.splits if_splits)

lemma to_complex_error: "to_complex v = Inl e \<Longrightarrow> e = OverflowError"
  by (auto simp: to_complex_def dest: to_float_error split: val.splits sum.splits)

lemma to_float_zero:
  "is_zero_val r \<Longrightarrow> \<not> is_complex r \<Longrightarrow> \<exists>z. to_float r = Inr z \<and> f_is_zero z"
  by (cases r)
     (auto simp: is_zero_val_def is_complex_def to_float_def int_to_float_def int_of_def
        round_ratio_zero f_is_inf_def f_is_zero_def)

lemma to_complex_zero: "is_zero_val r \<Longrightarrow> \<exists>c. to_complex r = Inr c \<and> c_is_zero c"
  by (cases r)
     (auto simp: is_zero_val_def to_complex_def to_float_def int_to_float_def int_of_def
        round_ratio_zero f_is_inf_def f_is_zero_def c_is_zero_def)

lemma int_of_zero:
  "is_zero_val r \<Longrightarrow> \<not> is_complex r \<Longrightarrow> \<not> is_float r \<Longrightarrow> int_of r = 0"
  by (cases r) (auto simp: is_zero_val_def is_complex_def is_float_def int_of_def)

lemma py_truediv_zero:
  assumes "is_zero_val r"
  shows "py_truediv rt l r = Inl ZeroDivisionError \<or> py_truediv rt l r = Inl OverflowError"
proof (cases "is_complex l \<or> is_complex r")
  case True
  from to_complex_zero [OF assms] obtain c where c: "to_complex r = Inr c" "c_is_zero c"
    by blast
  show ?thesis
  proof (cases "to_complex l")
    case (Inl e)
    with True to_complex_error [of l e] show ?thesis
      by (simp add: py_truediv_def complex_op_def)
  next
    case (Inr a)
    with True c show ?thesis
      by (simp add: py_truediv_def complex_op_def complex_result_def)
  qed
next
  case False
  then have nc: "\<not> is_complex r" by simp
  show ?thesis
  proof (cases "is_float l \<or> is_float r")
    case True
    from to_float_zero [OF assms nc] obtain z where z: "to_float r = Inr z" "f_is_zero z"
      by blast
    show ?thesis
    proof (cases "to_float l")
      case (Inl e)
      with True False to_float_error [of l e] show ?thesis
        by (simp add: py_truediv_def float_op_def)
    next
      case (Inr a)
      with True False z show ?thesis
        by (simp add: py_truediv_def float_op_def float_div_def)
    qed
  next
    case nf: False
    with False assms int_of_zero [of r] show ?thesis
      by (simp add: py_truediv_def long_true_divide_def)
  qed
qed

lemma py_mod_zero:
  assumes "is_zero_val r" and "\<not> is_complex l" and "\<not> is_complex r"
  shows "py_mod rt l r = Inl ZeroDivisionError \<or> py_mod rt l r = Inl OverflowError"
proof (cases "is_float l \<or> is_float r")
  case True
  from to_float_zero [OF assms(1) assms(3)] obtain z where z: "to_float r = Inr z" "f_is_zero z"
    by blast
  show ?thesis
  proof (cases "to_float l")
    case (Inl e)
    with True assms to_float_error [of l e] show ?thesis
      by (simp add: py_mod_def float_op_def)
  next
    case (Inr a)
    with True assms z show ?thesis
      by (simp add: py_mod_def float_op_def float_rem_def)
  qed
next
  case False
  with assms int_of_zero [of r] show ?thesis
    by (simp add: py_mod_def)
qed

lemma applies_zero_raises:
  assumes "applies rt n op l r"
    and "op = Div \<or> (op = Mod \<and> \<not> is_complex l \<and> \<not> is_complex r)"
    and "is_zero_val r"
  shows "eval_node rt n = Inl ZeroDivisionError \<or> eval_node rt n = Inl OverflowError"
  using assms
proof (induction rule: applies.induct)
  case (applies_here rt left l right r op f)
  from applies_here(4) show ?case
  proof
    assume "op = Div"
    with applies_here py_truediv_zero [of r rt l] show ?thesis
      by (simp add: ALLOWED_OPERATORS_binary_def)
  next
    assume "op = Mod \<and> \<not> is_complex l \<and> \<not> is_complex r"
    with applies_here py_mod_zero [of r l rt] show ?thesis
      by (simp add: ALLOWED_OPERATORS_binary_def)
  qed
next
  case (applies_left rt left op l r op' right)
  then show ?case by auto
next
  case (applies_right rt left lv right op l r op')
  then show ?case by auto
next
  case (applies_operand rt operand op l r u)
  then show ?case by auto
next
  case (applies_body rt body op l r)
  then show ?case by auto
qed

text \<open>
  Claim C3, as the code has it. When the evaluation of the text applies \<^verbatim>\<open>/\<close> to a zero right
  operand, or applies \<^verbatim>\<open>%\<close> to a zero right operand and neither operand is complex, \<^verbatim>\<open>safe_eval\<close>
  raises an arithmetic error: \<^verbatim>\<open>ZeroDivisionError\<close>, or \<^verbatim>\<open>OverflowError\<close> when the conversion of
  an integer operand to float overflows first.
\<close>

theorem C3_zero_divisor:
  assumes "prs (replace_caret s) = Inr n"
    and "applies rt n op l r"
    and "op = Div \<or> (op = Mod \<and> \<not> is_complex l \<and> \<not> is_complex r)"
    and "is_zero_val r"
  shows "(safe_eval rt prs s = Inl ZeroDivisionError \<or> safe_eval rt prs s = Inl OverflowError)
         \<and> failure_of ZeroDivisionError = Some ArithmeticFailure
         \<and> failure_of OverflowError = Some ArithmeticFailure"
  using applies_zero_raises [OF assms(2) assms(3) assms(4)] assms(1)
  by (auto simp: safe_eval_def failure_of_def)

theorem C3_zero_divisor_witness:
  "ast_parse 4300 (replace_caret ''5/0'')
     = Inr (Expression (BinOp (Constant (CInt 5)) Div (Constant (CInt 0))))
   \<and> applies sample_runtime (Expression (BinOp (Constant (CInt 5)) Div (Constant (CInt 0))))
        Div (VInt 5) (VInt 0)
   \<and> is_zero_val (VInt 0)
   \<and> safe_eval sample_runtime (ast_parse 4300) ''5/0'' = Inl ZeroDivisionError"
proof -
  have p: "ast_parse 4300 (replace_caret ''5/0'')
             = Inr (Expression (BinOp (Constant (CInt 5)) Div (Constant (CInt 0))))"
    by (simp add: parser_eval)
  have a: "applies sample_runtime (Expression (BinOp (Constant (CInt 5)) Div (Constant (CInt 0))))
             Div (VInt 5) (VInt 0)"
    by (rule applies_body, rule applies_here [where f = py_truediv])
       (simp_all add: walk_eval)
  have z: "is_zero_val (VInt 0)"
    by (simp add: is_zero_val_def)
  have d: "Div = Div \<or> (Div = Mod \<and> \<not> is_complex (VInt 5) \<and> \<not> is_complex (VInt 0))"
    by simp
  have v: "safe_eval sample_runtime (ast_parse 4300) ''5/0'' \<noteq> Inl OverflowError"
    by (simp add: parser_eval walk_eval arith_eval float_eval)
  note C3_zero_divisor [where prs = "ast_parse 4300" and s = "''5/0''", OF p a d z]
  with p a z v show ?thesis by simp
qed

text \<open>
  The claim as the specification states it fails on the text \<^verbatim>\<open>1j%0\<close>: the evaluation applies
  \<^verbatim>\<open>%\<close> to the operands \<^verbatim>\<open>1j\<close> and \<^verbatim>\<open>0\<close>, and \<^verbatim>\<open>operator.mod\<close> raises \<^verbatim>\<open>TypeError\<close>, which is not an
  arithmetic error.
\<close>

theorem C3_complex_modulo_counterexample:
  "ast_parse 4300 (replace_caret ''1j%0'')
     = Inr (Expression (BinOp (Constant (CComplex PZero (Fin 1 0))) Mod (Constant (CInt 0))))
   \<and> applies sample_runtime
        (Expression (BinOp (Constant (CComplex PZero (Fin 1 0))) Mod (Constant (CInt 0))))
        Mod (VComplex PZero (Fin 1 0)) (VInt 0)
   \<and> is_zero_val (VInt 0)
   \<and> safe_eval sample_runtime (ast_parse 4300) ''1j%0'' = Inl TypeError
   \<and> failure_of TypeError = None"
proof -
  have p: "ast_parse 4300 (replace_caret ''1j%0'')
     = Inr (Expression (BinOp (Constant (CComplex PZero (Fin 1 0))) Mod (Constant (CInt 0))))"
    by (simp add: parser_eval round_ratio_eval)
  have a: "applies sample_runtime
        (Expression (BinOp (Constant (CComplex PZero (Fin 1 0))) Mod (Constant (CInt 0))))
        Mod (VComplex PZero (Fin 1 0)) (VInt 0)"
    by (rule applies_body, rule applies_here [where f = py_mod])
       (simp_all add: walk_eval)
  have v: "safe_eval sample_runtime (ast_parse 4300) ''1j%0'' = Inl TypeError"
    by (simp add: parser_eval walk_eval arith_eval float_eval round_ratio_eval)
  from p a v show ?thesis by (simp add: is_zero_val_def failure_of_def)
qed

section \<open>The exceptions \<^verbatim>\<open>safe_eval\<close> can raise\<close>

lemma float_op_error:
  assumes "float_op f a b = Inl e"
  shows "e = OverflowError \<or> (\<exists>x y. f x y = Inl e)"
  using assms to_float_error [of a e] to_float_error [of b e]
  by (auto simp: float_op_def split: sum.splits)

lemma complex_op_error:
  assumes "complex_op rt op a b = Inl e"
  shows "e = OverflowError \<or> e = ZeroDivisionError \<or> (e = TypeError \<and> op \<notin> {Add, Sub, Mult, Div, Pow_op})"
  using assms to_complex_error [of a e] to_complex_error [of b e]
  by (auto simp: complex_op_def complex_result_def split: sum.splits if_splits)

lemma complex_result_error:
  assumes "complex_result rt Pow_op a b = Inl e"
  shows "e = OverflowError \<or> e = ZeroDivisionError"
  using assms by (auto simp: complex_result_def split: if_splits)

lemma py_add_error: "py_add rt a b = Inl e \<Longrightarrow> e = OverflowError \<or> e = ZeroDivisionError"
  by (auto simp: py_add_def dest!: float_op_error complex_op_error split: if_splits)

lemma py_sub_error: "py_sub rt a b = Inl e \<Longrightarrow> e = OverflowError \<or> e = ZeroDivisionError"
  by (auto simp: py_sub_def dest!: float_op_error complex_op_error split: if_splits)

lemma py_mul_error: "py_mul rt a b = Inl e \<Longrightarrow> e = OverflowError \<or> e = ZeroDivisionError"
  by (auto simp: py_mul_def dest!: float_op_error complex_op_error split: if_splits)

lemma py_truediv_error:
  "py_truediv rt a b = Inl e \<Longrightarrow> e = OverflowError \<or> e = ZeroDivisionError"
  by (auto simp: py_truediv_def float_div_def long_true_divide_def
      dest!: float_op_error complex_op_error split: if_splits)

lemma py_mod_error:
  "py_mod rt a b = Inl e \<Longrightarrow>
     e = OverflowError \<or> e = ZeroDivisionError
     \<or> (e = TypeError \<and> (is_complex a \<or> is_complex b))"
  by (auto simp: py_mod_def float_rem_def dest!: float_op_error split: if_splits)

lemma float_pow_error:
  "float_pow rt x y = Inl e \<Longrightarrow> e = OverflowError \<or> e = ZeroDivisionError"
  by (auto simp: float_pow_def pow_result_def dest!: complex_result_error split: if_splits)

lemma py_pow_error: "py_pow rt a b = Inl e \<Longrightarrow> e = OverflowError \<or> e = ZeroDivisionError"
  by (auto simp: py_pow_def dest!: float_op_error complex_op_error float_pow_error
      split: if_splits)

lemma py_neg_value: "\<exists>v. py_neg a = Inr v"
  by (cases a) (simp_all add: py_neg_def)

lemma py_pos_value: "\<exists>v. py_pos a = Inr v"
  by (cases a) (simp_all add: py_pos_def)

lemma binary_error:
  assumes "map_of ALLOWED_OPERATORS_binary op = Some f" and "f rt a b = Inl e"
  shows "e = OverflowError \<or> e = ZeroDivisionError
         \<or> (e = TypeError \<and> op = Mod \<and> (is_complex a \<or> is_complex b))"
  using assms py_add_error [of rt a b e] py_sub_error [of rt a b e] py_mul_error [of rt a b e]
    py_truediv_error [of rt a b e] py_mod_error [of rt a b e] py_pow_error [of rt a b e]
  by (cases op) (auto simp: ALLOWED_OPERATORS_binary_def)

lemma unary_value:
  assumes "map_of ALLOWED_OPERATORS_unary op = Some f"
  shows "\<exists>v. f a = Inr v"
  using assms py_neg_value [of a] py_pos_value [of a]
  by (cases op) (auto simp: ALLOWED_OPERATORS_unary_def)

lemma failure_of_binary:
  "failure_of (ValueError (''Unsupported binary operator: '' @ m)) = Some UnsupportedOperator"
  by (simp add: failure_eval)

lemma failure_of_unary:
  "failure_of (ValueError (''Unsupported unary operator: '' @ m)) = Some UnsupportedOperator"
  by (simp add: failure_eval)

lemma eval_node_error:
  "eval_node rt n = Inl e \<Longrightarrow> failure_of e \<noteq> None \<or> e = TypeError"
proof (induction rt n arbitrary: e rule: eval_node.induct)
  case (1 rt body)
  then show ?case by simp
next
  case (2 rt left op right)
  show ?case
  proof (cases "eval_node rt left")
    case (Inl x)
    with 2 show ?thesis by simp
  next
    case l: (Inr lv)
    show ?thesis
    proof (cases "eval_node rt right")
      case (Inl x)
      with 2 l show ?thesis by simp
    next
      case r: (Inr rv)
      show ?thesis
      proof (cases "map_of ALLOWED_OPERATORS_binary op")
        case None
        with 2(3) l r failure_of_binary [of "class_repr (operator_name op)"] show ?thesis
          by auto
      next
        case (Some f)
        with 2(3) l r have "f rt lv rv = Inl e" by simp
        from binary_error [OF Some this] show ?thesis by (auto simp: failure_of_def)
      qed
    qed
  qed
next
  case (3 rt op operand)
  show ?case
  proof (cases "eval_node rt operand")
    case (Inl x)
    with 3 show ?thesis by simp
  next
    case v: (Inr v)
    show ?thesis
    proof (cases "map_of ALLOWED_OPERATORS_unary op")
      case None
      with 3(2) v failure_of_unary [of "class_repr (unaryop_name op)"] show ?thesis
        by auto
    next
      case (Some f)
      with 3(2) v unary_value [OF Some, of v] show ?thesis by auto
    qed
  qed
next
  case (4 rt c)
  then show ?case by (auto simp: failure_eval split: if_splits)
next
  case (5 rt func args kws)
  then show ?case by (auto simp: failure_eval)
qed (auto simp: failure_eval class_repr_def)

lemma ast_parse_error: "ast_parse L s = Inl e \<Longrightarrow> e = SyntaxError"
  by (auto simp: ast_parse_def split: option.splits if_splits)

lemma safe_eval_error:
  assumes "safe_eval rt (ast_parse L) s = Inl e"
  shows "failure_of e \<noteq> None \<or> e = TypeError"
proof (cases "ast_parse L (replace_caret s)")
  case (Inl x)
  with ast_parse_error [of L "replace_caret s" x] assms show ?thesis
    by (auto simp: safe_eval_def failure_eval)
next
  case (Inr n)
  with assms have "eval_node rt n = Inl e"
    by (auto simp: safe_eval_def split: sum.splits)
  then show ?thesis by (rule eval_node_error)
qed

lemma eval_node_within_cases:
  "eval_node_within ok d rt n = Inl RecursionError
   \<or> eval_node_within ok d rt n = Inl MemoryError
   \<or> eval_node_within ok d rt n = eval_node rt n"
proof (induction ok d rt n rule: eval_node_within.induct)
  case (3 ok d rt left op right)
  show ?case
  proof (cases "eval_node_within ok d rt left")
    case (Inl e)
    with 3(1) show ?thesis by (auto split: sum.splits)
  next
    case l: (Inr lv)
    with 3(1) have el: "eval_node rt left = Inr lv" by auto
    show ?thesis
    proof (cases "eval_node_within ok d rt right")
      case (Inl e)
      with 3(2) [OF l] l el show ?thesis by (auto split: sum.splits)
    next
      case r: (Inr rv)
      with 3(2) [OF l] have er: "eval_node rt right = Inr rv" by auto
      from l r el er show ?thesis
        by (auto simp: allocated_def split: option.splits sum.splits)
    qed
  qed
next
  case (4 ok d rt op operand)
  show ?case
  proof (cases "eval_node_within ok d rt operand")
    case (Inl e)
    with 4 show ?thesis by (auto split: sum.splits)
  next
    case v: (Inr v)
    with 4 have "eval_node rt operand = Inr v" by auto
    with v show ?thesis
      by (auto simp: allocated_def split: option.splits sum.splits)
  qed
qed auto

lemma eval_node_within_ample:
  "frames_needed n \<le> d \<Longrightarrow> \<forall>v. ok v \<Longrightarrow> eval_node_within ok d rt n = eval_node rt n"
proof (induction n arbitrary: d)
  case (Expression body)
  then obtain d' where d: "d = Suc d'" "frames_needed body \<le> d'" by (cases d) auto
  have "eval_node_within ok d' rt body = eval_node rt body"
    by (rule Expression.IH [OF d(2) Expression.prems(2)])
  with d show ?case by simp
next
  case (BinOp left op right)
  then obtain d' where d: "d = Suc d'" "frames_needed left \<le> d'" "frames_needed right \<le> d'"
    by (cases d) auto
  have "eval_node_within ok d' rt left = eval_node rt left"
    and "eval_node_within ok d' rt right = eval_node rt right"
    by (rule BinOp.IH(1) [OF d(2) BinOp.prems(2)], rule BinOp.IH(2) [OF d(3) BinOp.prems(2)])
  moreover have "allocated ok r = r" for r
    using BinOp.prems(2) by (cases r) (simp_all add: allocated_def)
  ultimately show ?case by (simp add: d(1) split: sum.splits option.splits)
next
  case (UnaryOp op operand)
  then obtain d' where d: "d = Suc d'" "frames_needed operand \<le> d'" by (cases d) auto
  have "eval_node_within ok d' rt operand = eval_node rt operand"
    by (rule UnaryOp.IH [OF d(2) UnaryOp.prems(2)])
  moreover have "allocated ok r = r" for r
    using UnaryOp.prems(2) by (cases r) (simp_all add: allocated_def)
  ultimately show ?case by (simp add: d(1) split: sum.splits option.splits)
next
  case (Constant c)
  then show ?case by (cases d) auto
next
  case (Call f args kws)
  then show ?case by (cases d) auto
next
  case (Name x)
  then show ?case by (cases d) auto
next
  case (Attribute v x)
  then show ?case by (cases d) auto
next
  case (Tuple xs)
  then show ?case by (cases d) auto
next
  case (Starred v)
  then show ?case by (cases d) auto
next
  case (OtherNode x)
  then show ?case by (cases d) auto
qed

lemma safe_eval_within_cases:
  "safe_eval_within lim rt prs s = Inl RecursionError
   \<or> safe_eval_within lim rt prs s = Inl MemoryError
   \<or> safe_eval_within lim rt prs s = safe_eval rt prs s"
proof (cases "lim_parse lim (replace_caret s)")
  case (Some x)
  then show ?thesis by (cases x) (simp_all add: safe_eval_within_def exhausted_def)
next
  case None
  show ?thesis
  proof (cases "prs (replace_caret s)")
    case (Inl e)
    with None show ?thesis by (simp add: safe_eval_within_def safe_eval_def)
  next
    case (Inr n)
    with None eval_node_within_cases [of "lim_alloc lim" "lim_frames lim" rt n] show ?thesis
      by (auto simp: safe_eval_within_def safe_eval_def)
  qed
qed

text \<open>
  Claim C2, as the code has it. On a text of digits, points, white space and operator
  characters \<^verbatim>\<open>safe_eval\<close>, run under any limits of stack and memory, returns a number, or
  raises an exception of one of the five kinds, or raises \<^verbatim>\<open>TypeError\<close>, or raises
  \<^verbatim>\<open>RecursionError\<close> or \<^verbatim>\<open>MemoryError\<close>. Unless it raises one of these last two, it does what
  the evaluation without limits does; and it does so whenever the parser and the allocator
  do not fail and the frames left are as many as the tree needs. A function of the whitelist
  raises \<^verbatim>\<open>TypeError\<close> only when it is \<^verbatim>\<open>%\<close> and one of its operands is complex. \<^verbatim>\<open>safe_eval\<close> is a
  function of the text, the runtime and the limits: it reads and writes no other state.
\<close>

theorem C2_results_of_keypad_texts:
  assumes "list_all keypad_char s"
  shows "((\<exists>v. safe_eval_within lim rt (ast_parse L) s = Inr v)
          \<or> (\<exists>e k. safe_eval_within lim rt (ast_parse L) s = Inl e \<and> failure_of e = Some k)
          \<or> safe_eval_within lim rt (ast_parse L) s = Inl TypeError
          \<or> safe_eval_within lim rt (ast_parse L) s = Inl RecursionError
          \<or> safe_eval_within lim rt (ast_parse L) s = Inl MemoryError)
         \<and> (safe_eval_within lim rt (ast_parse L) s = Inl RecursionError
            \<or> safe_eval_within lim rt (ast_parse L) s = Inl MemoryError
            \<or> safe_eval_within lim rt (ast_parse L) s = safe_eval rt (ast_parse L) s)
         \<and> (lim_parse lim (replace_caret s) = None \<and> (\<forall>v. lim_alloc lim v)
              \<and> ast_parse L (replace_caret s) = Inr n \<and> frames_needed n \<le> lim_frames lim
              \<longrightarrow> safe_eval_within lim rt (ast_parse L) s = safe_eval rt (ast_parse L) s)
         \<and> (map_of ALLOWED_OPERATORS_binary op = Some f \<and> f rt a b = Inl TypeError
              \<longrightarrow> op = Mod \<and> (is_complex a \<or> is_complex b))"
proof -
  let ?r = "safe_eval_within lim rt (ast_parse L) s"
  have b: "?r = Inl RecursionError \<or> ?r = Inl MemoryError \<or> ?r = safe_eval rt (ast_parse L) s"
    by (rule safe_eval_within_cases)
  have a: "(\<exists>v. ?r = Inr v) \<or> (\<exists>e k. ?r = Inl e \<and> failure_of e = Some k)
          \<or> ?r = Inl TypeError \<or> ?r = Inl RecursionError \<or> ?r = Inl MemoryError"
  proof (cases "?r = Inl RecursionError \<or> ?r = Inl MemoryError")
    case True
    then show ?thesis by auto
  next
    case False
    with b have eq: "?r = safe_eval rt (ast_parse L) s" by simp
    show ?thesis
    proof (cases "safe_eval rt (ast_parse L) s")
      case (Inl e)
      from safe_eval_error [OF Inl] Inl eq show ?thesis by auto
    next
      case (Inr v)
      with eq show ?thesis by simp
    qed
  qed
  have c: "lim_parse lim (replace_caret s) = None \<and> (\<forall>v. lim_alloc lim v)
              \<and> ast_parse L (replace_caret s) = Inr n \<and> frames_needed n \<le> lim_frames lim
              \<longrightarrow> ?r = safe_eval rt (ast_parse L) s"
    by (auto simp: safe_eval_within_def safe_eval_def eval_node_within_ample)
  have d: "map_of ALLOWED_OPERATORS_binary op = Some f \<and> f rt a b = Inl TypeError
      \<longrightarrow> op = Mod \<and> (is_complex a \<or> is_complex b)"
    using binary_error [of op f rt a b TypeError] by auto
  from a b c d show ?thesis by blast
qed

theorem C2_results_of_keypad_texts_witness:
  "list_all keypad_char ''5/0''
   \<and> lim_parse sample_limits (replace_caret ''5/0'') = None \<and> (\<forall>v. lim_alloc sample_limits v)
   \<and> ast_parse 4300 (replace_caret ''5/0'')
       = Inr (Expression (BinOp (Constant (CInt 5)) Div (Constant (CInt 0))))
   \<and> frames_needed (Expression (BinOp (Constant (CInt 5)) Div (Constant (CInt 0))))
       \<le> lim_frames sample_limits
   \<and> safe_eval_within sample_limits sample_runtime (ast_parse 4300) ''5/0''
       = Inl ZeroDivisionError
   \<and> failure_of ZeroDivisionError = Some ArithmeticFailure
   \<and> safe_eval_within (sample_limits\<lparr>lim_frames := 3\<rparr>) sample_runtime (ast_parse 4300) ''5/0''
       = Inl RecursionError"
proof -
  have k: "list_all keypad_char ''5/0''"
    by (simp add: keypad_char_def is_digit_def isspace_def)
  have p: "ast_parse 4300 (replace_caret ''5/0'')
       = Inr (Expression (BinOp (Constant (CInt 5)) Div (Constant (CInt 0))))"
    by (simp add: parser_eval)
  have l: "lim_parse sample_limits (replace_caret ''5/0'') = None" "\<forall>v. lim_alloc sample_limits v"
    "frames_needed (Expression (BinOp (Constant (CInt 5)) Div (Constant (CInt 0))))
       \<le> lim_frames sample_limits"
    by (simp_all add: sample_limits_def)
  have v: "safe_eval sample_runtime (ast_parse 4300) ''5/0'' = Inl ZeroDivisionError"
    by (simp add: parser_eval walk_eval arith_eval float_eval)
  have r: "safe_eval_within (sample_limits\<lparr>lim_frames := 3\<rparr>) sample_runtime (ast_parse 4300)
             ''5/0'' = Inl RecursionError"
    using p by (simp add: safe_eval_within_def sample_limits_def eval_nat_numeral)
  note C2_results_of_keypad_texts [OF k, of sample_limits sample_runtime 4300
      "Expression (BinOp (Constant (CInt 5)) Div (Constant (CInt 0)))" Mod py_mod "VInt 5" "VInt 0"]
  with k p l v r show ?thesis by (simp add: failure_of_def)
qed

text \<open>
  The claim as the specification states it fails on the keypad text \<^verbatim>\<open>(-1)**.5%1\<close>: the power
  of a negative number with a fractional exponent is a complex number, and \<^verbatim>\<open>%\<close> on a complex
  number raises \<^verbatim>\<open>TypeError\<close>, which has none of the five kinds. Stack and memory play no part:
  the tree needs five frames.
\<close>

theorem C2_untyped_error_counterexample:
  "list_all keypad_char ''(-1)**.5%1''
   \<and> safe_eval sample_runtime (ast_parse 4300) ''(-1)**.5%1'' = Inl TypeError
   \<and> safe_eval_within sample_limits sample_runtime (ast_parse 4300) ''(-1)**.5%1'' = Inl TypeError
   \<and> failure_of TypeError = None
   \<and> \<not> typed_result (safe_eval sample_runtime (ast_parse 4300) ''(-1)**.5%1'')"
proof -
  have k: "list_all keypad_char ''(-1)**.5%1''"
    by (simp add: keypad_char_def is_digit_def isspace_def)
  have p: "ast_parse 4300 (replace_caret ''(-1)**.5%1'')
      = Inr (Expression (BinOp (BinOp (UnaryOp USub (Constant (CInt 1))) Pow_op
               (Constant (CFloat (Fin 1 (- 1))))) Mod (Constant (CInt 1))))"
    by (simp add: parser_eval round_ratio_eval)
  have v: "safe_eval sample_runtime (ast_parse 4300) ''(-1)**.5%1'' = Inl TypeError"
    unfolding safe_eval_def p
    by (simp add: walk_eval arith_eval float_eval round_ratio_eval sample_runtime_def)
  have w: "safe_eval_within sample_limits sample_runtime (ast_parse 4300) ''(-1)**.5%1''
      = safe_eval sample_runtime (ast_parse 4300) ''(-1)**.5%1''"
    using p by (simp add: safe_eval_within_def safe_eval_def eval_node_within_ample
        sample_limits_def)
  from k v w show ?thesis by (simp add: failure_eval)
qed

section \<open>Evaluating the text of a result again\<close>

lemma below_ten: "(d::nat) < 10 \<Longrightarrow> d \<in> {0, 1, 2, 3, 4, 5, 6, 7, 8, 9}"
  by auto

lemma digit_char_props:
  assumes "d < 10"
  shows "is_digit (digit_char d)" and "digit_val (digit_char d) = d"
    and "digit_char d = CHR ''0'' \<longleftrightarrow> d = 0"
  using below_ten [OF assms]
  by (auto simp: digit_char_def is_digit_def digit_val_def)

lemma dec_nonempty: "dec k \<noteq> []"
  by (subst dec.simps) simp

lemma dec_digits: "list_all is_digit (dec k)"
proof (induction k rule: dec.induct)
  case (1 n)
  show ?case
  proof (cases "n < 10")
    case True
    then show ?thesis by (subst dec.simps) (simp add: digit_char_props)
  next
    case False
    with 1 show ?thesis by (subst dec.simps) (simp add: digit_char_props)
  qed
qed

lemma digits_value_snoc:
  "is_digit c \<Longrightarrow> digits_value (ds @ [c]) = 10 * digits_value ds + digit_val c"
  by (simp add: digits_value_def)

lemma digits_value_dec: "digits_value (dec k) = k"
proof (induction k rule: dec.induct)
  case (1 n)
  show ?case
  proof (cases "n < 10")
    case True
    then show ?thesis
      by (subst dec.simps) (simp add: digits_value_def digit_char_props)
  next
    case False
    with 1 have "digits_value (dec (n div 10)) = n div 10" by simp
    with False show ?thesis
      by (subst dec.simps) (simp add: digits_value_snoc digit_char_props)
  qed
qed

lemma hd_dec_zero: "hd (dec k) = CHR ''0'' \<Longrightarrow> k = 0"
proof (induction k rule: dec.induct)
  case (1 n)
  show ?case
  proof (cases "n < 10")
    case True
    with 1(2) show ?thesis
      by (subst (asm) dec.simps) (simp add: digit_char_props)
  next
    case False
    with 1(2) have "hd (dec (n div 10)) = CHR ''0''"
      by (subst (asm) dec.simps) (simp add: dec_nonempty)
    with 1(1) False have "n div 10 = 0" by simp
    with False show ?thesis by simp
  qed
qed

lemma digit_not_special:
  assumes "is_digit c"
  shows "c \<noteq> CHR ''_''" "c \<noteq> CHR ''.''" "c \<noteq> CHR ''^''" "c \<noteq> CHR '' ''" "c \<noteq> CHR 0x09"
    "c \<noteq> CHR 0x0C" "\<not> is_newline c" "\<not> is_blank c" "\<not> is_exp_char c" "\<not> is_imag_char c"
    "is_name_char c"
  using assms
  by (auto simp: is_digit_def is_newline_def is_blank_def is_exp_char_def is_imag_char_def
      is_name_char_def)

lemma digitpart_ok_digits: "list_all is_digit ds \<Longrightarrow> ds \<noteq> [] \<Longrightarrow> digitpart_ok ds"
  by (induction ds rule: digitpart_ok.induct) (auto simp: digit_not_special)

lemma filter_digits: "list_all is_digit ds \<Longrightarrow> filter is_digit ds = ds"
  by (induction ds) auto

lemma number_token_digits:
  assumes "list_all is_digit t" and "t \<noteq> []"
  shows "number_token L t =
           (if hd t = CHR ''0'' \<and> digits_value t \<noteq> 0 then None
            else if digits_value t \<noteq> 0 \<and> over_digit_limit L (length t) then None
            else Some (CInt (int (digits_value t))))"
proof -
  from assms have l: "is_digit (last t)"
    by (induction t) (auto split: if_splits)
  then have im: "\<not> lit_imag t"
    by (simp add: lit_imag_def digit_not_special)
  then have body: "lit_body t = t"
    by (simp add: lit_body_def)
  from assms(1) have ne: "\<forall>c \<in> set t. \<not> is_exp_char c"
    by (auto simp: list_all_iff digit_not_special)
  then have man: "lit_mantissa t = t" and ex: "lit_exponent t = []"
    by (simp_all add: lit_mantissa_def lit_exponent_def body)
  from assms(1) have np: "\<forall>c \<in> set t. c \<noteq> CHR ''.''"
    by (auto simp: list_all_iff digit_not_special)
  then have li: "lit_int t = t" and lp: "lit_point t = []"
    by (simp_all add: lit_int_def lit_point_def man)
  have lf: "lit_frac t = []"
    by (simp add: lit_frac_def lp)
  have wf: "lit_wellformed t"
    using assms by (simp add: lit_wellformed_def li lf ex digitpart_ok_digits)
  have int: "lit_is_integer t"
    by (simp add: lit_is_integer_def lp ex im)
  have nd: "num_digits t = length t"
    using assms(1) by (simp add: num_digits_def filter_digits)
  show ?thesis
    by (simp add: number_token_def wf int nd)
qed

lemma number_token_dec:
  assumes "\<not> over_digit_limit L (length (dec k))"
  shows "number_token L (dec k) = Some (CInt (int k))"
  using assms hd_dec_zero [of k]
  by (auto simp: number_token_digits [OF dec_digits dec_nonempty] digits_value_dec)

lemma tokenize_in_number:
  "list_all is_digit ds \<Longrightarrow> tokenize L (InNum acc) 0 ds = emit_number L (acc @ ds) (Some [])"
  by (induction ds arbitrary: acc) (simp_all add: continues_number_def digit_not_special)

lemma tokenize_digits_in_line:
  assumes "list_all is_digit t" and "t \<noteq> []"
  shows "tokenize L InLine 0 t = emit_number L t (Some [])"
proof (cases t)
  case Nil
  with assms show ?thesis by simp
next
  case (Cons c cs)
  with assms have c: "is_digit c" and cs: "list_all is_digit cs" by simp_all
  from c cs show ?thesis
    by (simp add: Cons digit_not_special tokenize_in_number)
qed

lemma tokenize_digits:
  assumes "list_all is_digit t" and "t \<noteq> []"
  shows "tokenize L (LineStart 0) 0 t = emit_number L t (Some [])"
proof (cases t)
  case Nil
  with assms show ?thesis by simp
next
  case (Cons c cs)
  with assms have c: "is_digit c" by simp
  have "tokenize L (LineStart 0) 0 (c # cs) = tokenize L InLine 0 (c # cs)"
    using c by (simp add: digit_not_special)
  with tokenize_digits_in_line [OF assms] Cons show ?thesis by simp
qed

lemma tokenize_minus:
  "tokenize L (LineStart 0) 0 (CHR ''-'' # t) = emit MINUS (tokenize L InLine 0 t)"
  by (simp add: is_blank_def is_newline_def is_digit_def is_name_start_def)

lemma tokenize_dec:
  assumes "\<not> over_digit_limit L (length (dec k))"
  shows "tokenize L (LineStart 0) 0 (dec k) = Some [NUMBER (CInt (int k))]"
  unfolding tokenize_digits [OF dec_digits dec_nonempty] emit_number_def
    number_token_dec [OF assms] emit_def
  by simp

lemma tokenize_minus_dec:
  assumes "\<not> over_digit_limit L (length (dec k))"
  shows "tokenize L (LineStart 0) 0 (CHR ''-'' # dec k) = Some [MINUS, NUMBER (CInt (int k))]"
  unfolding tokenize_minus tokenize_digits_in_line [OF dec_digits dec_nonempty] emit_number_def
    number_token_dec [OF assms] emit_def
  by simp

lemma ast_parse_dec:
  assumes "\<not> over_digit_limit L (length (dec k))"
  shows "ast_parse L (dec k) = Inr (Expression (Constant (CInt (int k))))"
  unfolding ast_parse_def tokenize_dec [OF assms]
  by (simp add: grammar_eval)

lemma ast_parse_minus_dec:
  assumes "\<not> over_digit_limit L (length (dec k))"
  shows "ast_parse L (CHR ''-'' # dec k)
           = Inr (Expression (UnaryOp USub (Constant (CInt (int k)))))"
  unfolding ast_parse_def tokenize_minus_dec [OF assms]
  by (simp add: grammar_eval)

lemma replace_caret_dec: "replace_caret (dec k) = dec k"
proof (rule replace_caret_id)
  show "CHR ''^'' \<notin> set (dec k)"
  proof
    assume "CHR ''^'' \<in> set (dec k)"
    with dec_digits [of k] have "is_digit CHR ''^''" by (simp add: list_all_iff)
    then show False by (simp add: is_digit_def)
  qed
qed

lemma safe_eval_str_int:
  assumes "\<not> over_digit_limit L (length (dec (nat \<bar>n\<bar>)))"
  shows "safe_eval rt (ast_parse L) (str_int n) = Inr (VInt n)"
proof (cases "n < 0")
  case True
  with assms have "\<not> over_digit_limit L (length (dec (nat (- n))))" by simp
  from ast_parse_minus_dec [OF this] True show ?thesis
    by (simp add: str_int_def safe_eval_def replace_caret_dec walk_eval py_neg_def int_of_def)
next
  case False
  with assms have "\<not> over_digit_limit L (length (dec (nat n)))" by simp
  from ast_parse_dec [OF this] False show ?thesis
    by (simp add: str_int_def safe_eval_def replace_caret_dec walk_eval)
qed

lemma safe_eval_str_bool:
  "safe_eval rt (ast_parse L) (if b then ''True'' else ''False'') = Inr (VBool b)"
  by (cases b) (simp_all add: parser_eval walk_eval)

lemma continues_all_append:
  "continues_all acc (xs @ ys) = (continues_all acc xs \<and> continues_all (acc @ xs) ys)"
  by (induction xs arbitrary: acc) auto

lemma continues_all_digits: "list_all is_digit ds \<Longrightarrow> continues_all acc ds"
  by (induction ds arbitrary: acc) (auto simp: continues_number_def digit_not_special)

lemma tokenize_run:
  "continues_all acc cs \<Longrightarrow>
   tokenize L (InNum acc) lvl (cs @ rest) = tokenize L (InNum (acc @ cs)) lvl rest"
  by (induction cs arbitrary: acc) simp_all

lemma number_text_shape:
  assumes "number_text t"
  shows "t = lit_int t @ lit_point t @ lit_exponent t"
    and "lit_point t = [] \<or> lit_point t = CHR ''.'' # lit_frac t"
    and "lit_exponent t = [] \<or> (\<exists>e s. is_exp_char e \<and> (s = [] \<or> s = ''+'' \<or> s = ''-'')
           \<and> lit_exponent t = e # s @ lit_exp_digits t)"
proof -
  from assms have b: "lit_body t = t" by (simp add: number_text_def)
  have "t = lit_mantissa t @ lit_exponent t"
    by (simp add: lit_mantissa_def lit_exponent_def b)
  moreover have "lit_mantissa t = lit_int t @ lit_point t"
    by (simp add: lit_int_def lit_point_def)
  ultimately show "t = lit_int t @ lit_point t @ lit_exponent t" by simp
  show "lit_point t = [] \<or> lit_point t = CHR ''.'' # lit_frac t"
  proof (cases "lit_point t")
    case Nil
    then show ?thesis by simp
  next
    case (Cons c cs)
    then have "hd (dropWhile (\<lambda>c. c \<noteq> CHR ''.'') (lit_mantissa t)) = c"
      by (simp add: lit_point_def)
    moreover have "dropWhile (\<lambda>c. c \<noteq> CHR ''.'') (lit_mantissa t) \<noteq> []"
      using Cons by (simp add: lit_point_def)
    ultimately have "c = CHR ''.''"
      using hd_dropWhile [of "\<lambda>c. c \<noteq> CHR ''.''" "lit_mantissa t"] by auto
    with Cons show ?thesis by (simp add: lit_frac_def)
  qed
  show "lit_exponent t = [] \<or> (\<exists>e s. is_exp_char e \<and> (s = [] \<or> s = ''+'' \<or> s = ''-'')
           \<and> lit_exponent t = e # s @ lit_exp_digits t)"
  proof (cases "lit_exponent t")
    case Nil
    then show ?thesis by simp
  next
    case (Cons e r)
    then have "dropWhile (\<lambda>c. \<not> is_exp_char c) (lit_body t) \<noteq> []"
      and "hd (dropWhile (\<lambda>c. \<not> is_exp_char c) (lit_body t)) = e"
      by (simp_all add: lit_exponent_def)
    with hd_dropWhile [of "\<lambda>c. \<not> is_exp_char c" "lit_body t"] have e: "is_exp_char e" by auto
    show ?thesis
    proof (cases "r \<noteq> [] \<and> is_sign_char (hd r)")
      case True
      then obtain s r' where r: "r = s # r'" and s: "is_sign_char s" by (cases r) auto
      with Cons have "lit_exp_digits t = r'" by (simp add: lit_exp_digits_def)
      with Cons r s e show ?thesis by (auto simp: is_sign_char_def)
    next
      case False
      with Cons have "lit_exp_digits t = r" by (auto simp: lit_exp_digits_def)
      with Cons e show ?thesis by auto
    qed
  qed
qed

lemma number_text_parts:
  assumes "number_text t"
  obtains I P X where "t = I @ P @ X" and "I \<noteq> []" and "list_all is_digit I"
    and "P = [] \<or> (\<exists>F. P = CHR ''.'' # F \<and> F \<noteq> [] \<and> list_all is_digit F)"
    and "X = [] \<or> (\<exists>e s D. X = e # s @ D \<and> is_exp_char e \<and> (s = [] \<or> s = ''+'' \<or> s = ''-'')
           \<and> D \<noteq> [] \<and> list_all is_digit D)"
proof -
  note s = number_text_shape [OF assms]
  from assms have i: "lit_int t \<noteq> []" "list_all is_digit (lit_int t)"
    and f: "list_all is_digit (lit_frac t)" "lit_point t \<noteq> [] \<Longrightarrow> lit_frac t \<noteq> []"
    and x: "lit_exponent t \<noteq> [] \<Longrightarrow> lit_exp_digits t \<noteq> [] \<and> list_all is_digit (lit_exp_digits t)"
    by (auto simp: number_text_def split: if_splits)
  have p: "lit_point t = [] \<or> (\<exists>F. lit_point t = CHR ''.'' # F \<and> F \<noteq> [] \<and> list_all is_digit F)"
    using s(2) f by auto
  have e: "lit_exponent t = [] \<or> (\<exists>e s D. lit_exponent t = e # s @ D \<and> is_exp_char e
      \<and> (s = [] \<or> s = ''+'' \<or> s = ''-'') \<and> D \<noteq> [] \<and> list_all is_digit D)"
  proof (cases "lit_exponent t = []")
    case True
    then show ?thesis by simp
  next
    case False
    with s(3) obtain e s where "is_exp_char e" "s = [] \<or> s = ''+'' \<or> s = ''-''"
      "lit_exponent t = e # s @ lit_exp_digits t" by auto
    with x [OF False] show ?thesis by blast
  qed
  from that [OF s(1) i p e] show thesis .
qed

lemma exp_char_name: "is_exp_char e \<Longrightarrow> is_name_char e"
  by (auto simp: is_exp_char_def is_name_char_def is_name_start_def)

lemma last_digits: "list_all is_digit ds \<Longrightarrow> ds \<noteq> [] \<Longrightarrow> is_digit (last ds)"
  by (induction ds) (auto split: if_splits)

lemma number_text_continues:
  assumes "number_text t"
  obtains c cs where "t = c # cs" and "is_digit c" and "continues_all [c] cs"
proof -
  from assms obtain I P X where t: "t = I @ P @ X" and i: "I \<noteq> []" "list_all is_digit I"
    and p: "P = [] \<or> (\<exists>F. P = CHR ''.'' # F \<and> F \<noteq> [] \<and> list_all is_digit F)"
    and x: "X = [] \<or> (\<exists>e s D. X = e # s @ D \<and> is_exp_char e \<and> (s = [] \<or> s = ''+'' \<or> s = ''-'')
           \<and> D \<noteq> [] \<and> list_all is_digit D)"
    by (rule number_text_parts)
  from i obtain c I' where I: "I = c # I'" and c: "is_digit c" and I': "list_all is_digit I'"
    by (cases I) auto
  have a: "continues_all [c] I'"
    by (rule continues_all_digits [OF I'])
  have b: "continues_all I P"
  proof -
    from i(2) have "list_all (\<lambda>d. is_digit d \<or> d = CHR ''_'') I"
      by (simp add: list_all_iff)
    with p show ?thesis
      by (auto simp: continues_number_def continues_all_digits)
  qed
  have d: "continues_all (I @ P) X"
    using x
    by (auto simp: continues_number_def exp_char_name is_sign_char_def continues_all_digits
        continues_all_append)
  from a b d have "continues_all [c] (I' @ P @ X)"
    by (simp add: continues_all_append I)
  with that [of c "I' @ P @ X"] t I c show thesis by simp
qed

lemma number_text_last:
  assumes "number_text t"
  shows "is_digit (last t)"
proof -
  from assms obtain I P X where t: "t = I @ P @ X" and i: "I \<noteq> []" "list_all is_digit I"
    and p: "P = [] \<or> (\<exists>F. P = CHR ''.'' # F \<and> F \<noteq> [] \<and> list_all is_digit F)"
    and x: "X = [] \<or> (\<exists>e s D. X = e # s @ D \<and> is_exp_char e \<and> (s = [] \<or> s = ''+'' \<or> s = ''-'')
           \<and> D \<noteq> [] \<and> list_all is_digit D)"
    by (rule number_text_parts)
  show ?thesis
  proof (cases "X = []")
    case False
    with x obtain e s D where "X = e # s @ D" "D \<noteq> []" "list_all is_digit D" by auto
    with t last_digits [of D] show ?thesis by simp
  next
    case True
    show ?thesis
    proof (cases "P = []")
      case False
      with p obtain F where "P = CHR ''.'' # F" "F \<noteq> []" "list_all is_digit F" by auto
      with t True last_digits [of F] show ?thesis by simp
    next
      case P: True
      with True t i last_digits [of I] show ?thesis by simp
    qed
  qed
qed

lemma number_text_chars:
  assumes "number_text t" and "c \<in> set t"
  shows "is_digit c \<or> c = CHR ''.'' \<or> is_exp_char c \<or> is_sign_char c"
proof -
  from assms(1) obtain I P X where t: "t = I @ P @ X" and i: "I \<noteq> []" "list_all is_digit I"
    and p: "P = [] \<or> (\<exists>F. P = CHR ''.'' # F \<and> F \<noteq> [] \<and> list_all is_digit F)"
    and x: "X = [] \<or> (\<exists>e s D. X = e # s @ D \<and> is_exp_char e \<and> (s = [] \<or> s = ''+'' \<or> s = ''-'')
           \<and> D \<noteq> [] \<and> list_all is_digit D)"
    by (rule number_text_parts)
  from assms(2) t have "c \<in> set I \<or> c \<in> set P \<or> c \<in> set X" by auto
  with i p x show ?thesis
    by (auto simp: list_all_iff is_sign_char_def)
qed

lemma number_text_no_caret: "number_text t \<Longrightarrow> CHR ''^'' \<notin> set t"
  using number_text_chars [of t "CHR ''^''"]
  by (auto simp: is_digit_def is_exp_char_def is_sign_char_def)

lemma number_text_not_imag:
  assumes "number_text t"
  shows "\<not> lit_imag t"
  using number_text_last [OF assms] by (auto simp: lit_imag_def digit_not_special)

lemma number_text_wellformed:
  assumes "number_text t"
  shows "lit_wellformed t"
proof -
  from assms have i: "lit_int t \<noteq> []" "list_all is_digit (lit_int t)"
    and f: "list_all is_digit (lit_frac t)"
    and x: "lit_exponent t \<noteq> [] \<Longrightarrow> lit_exp_digits t \<noteq> [] \<and> list_all is_digit (lit_exp_digits t)"
    by (auto simp: number_text_def split: if_splits)
  have "lit_frac t = [] \<or> digitpart_ok (lit_frac t)"
    using f digitpart_ok_digits [of "lit_frac t"] by blast
  moreover have "lit_exponent t = [] \<or> digitpart_ok (lit_exp_digits t)"
    using x digitpart_ok_digits [of "lit_exp_digits t"] by blast
  ultimately show ?thesis
    using i by (simp add: lit_wellformed_def digitpart_ok_digits)
qed

lemma number_token_text:
  assumes "number_text t"
  shows "number_token L t =
           Some (text_const t)"
proof (cases "lit_is_integer t")
  case True
  then have p: "lit_point t = []" and x: "lit_exponent t = []"
    by (simp_all add: lit_is_integer_def)
  with number_text_shape(1) [OF assms] have t: "t = lit_int t" by simp
  with assms have d: "list_all is_digit t" and n: "t \<noteq> []"
    by (auto simp: number_text_def)
  from assms True have l: "length t \<le> 17" and z: "hd t = CHR ''0'' \<Longrightarrow> t = ''0''"
    by (auto simp: number_text_def split: if_splits)
  have "\<not> (hd t = CHR ''0'' \<and> digits_value t \<noteq> 0)"
  proof
    assume a: "hd t = CHR ''0'' \<and> digits_value t \<noteq> 0"
    with z have "t = ''0''" by simp
    then have "digits_value t = 0" by (simp add: digits_value_def is_digit_def digit_val_def)
    with a show False by simp
  qed
  moreover from l have "\<not> over_digit_limit L (length t)"
    by (simp add: over_digit_limit_def)
  ultimately show ?thesis
    using True by (simp add: number_token_digits [OF d n] text_const_def)
next
  case False
  with number_text_wellformed [OF assms] number_text_not_imag [OF assms] show ?thesis
    by (simp add: number_token_def text_const_def)
qed

lemma imag_text_parts:
  assumes "number_text t" and "is_imag_char j"
  shows "lit_imag (t @ [j])" and "lit_body (t @ [j]) = t" and "lit_mantissa (t @ [j]) = lit_mantissa t"
    and "lit_exponent (t @ [j]) = lit_exponent t" and "lit_int (t @ [j]) = lit_int t"
    and "lit_point (t @ [j]) = lit_point t" and "lit_frac (t @ [j]) = lit_frac t"
    and "lit_exp_digits (t @ [j]) = lit_exp_digits t" and "lit_exp_value (t @ [j]) = lit_exp_value t"
proof -
  from assms(1) have b: "lit_body t = t" by (simp add: number_text_def)
  show i: "lit_imag (t @ [j])" using assms(2) by (simp add: lit_imag_def)
  then show b': "lit_body (t @ [j]) = t" by (simp add: lit_body_def)
  show m: "lit_mantissa (t @ [j]) = lit_mantissa t" by (simp add: lit_mantissa_def b b')
  show x: "lit_exponent (t @ [j]) = lit_exponent t" by (simp add: lit_exponent_def b b')
  show "lit_int (t @ [j]) = lit_int t" by (simp add: lit_int_def m)
  show p: "lit_point (t @ [j]) = lit_point t" by (simp add: lit_point_def m)
  show "lit_frac (t @ [j]) = lit_frac t" by (simp add: lit_frac_def p)
  show d: "lit_exp_digits (t @ [j]) = lit_exp_digits t" by (simp add: lit_exp_digits_def x)
  show "lit_exp_value (t @ [j]) = lit_exp_value t" by (simp add: lit_exp_value_def x d)
qed

lemma number_token_imag:
  assumes "number_text t"
  shows "number_token L (t @ ''j'') = Some (CComplex PZero (lit_float t))"
proof -
  have j: "is_imag_char CHR ''j''" by (simp add: is_imag_char_def)
  note p = imag_text_parts [OF assms j]
  have w: "lit_wellformed (t @ ''j'')"
    using number_text_wellformed [OF assms] by (simp add: lit_wellformed_def p)
  have n: "\<not> lit_is_integer (t @ ''j'')"
    using p(1) by (simp add: lit_is_integer_def)
  have f: "lit_float (t @ ''j'') = lit_float t"
    by (simp add: lit_float_def p)
  from w n p(1) f show ?thesis by (simp add: number_token_def)
qed

lemma tokenize_number_start:
  assumes "number_text t"
  shows "tokenize L InLine lvl (t @ rest) = tokenize L (InNum t) lvl rest"
proof -
  from assms obtain c cs where t: "t = c # cs" and c: "is_digit c" and cs: "continues_all [c] cs"
    by (rule number_text_continues)
  have "tokenize L InLine lvl (c # cs @ rest) = tokenize L (InNum [c]) lvl (cs @ rest)"
    using c by (simp add: digit_not_special)
  with tokenize_run [OF cs] t show ?thesis by simp
qed

lemma tokenize_imag_start:
  assumes "number_text t"
  shows "tokenize L InLine lvl (t @ CHR ''j'' # rest) = tokenize L (InNum (t @ ''j'')) lvl rest"
proof -
  have "continues_number t CHR ''j''"
    by (simp add: continues_number_def is_name_char_def is_name_start_def)
  then have "tokenize L (InNum t) lvl (CHR ''j'' # rest) = tokenize L (InNum (t @ ''j'')) lvl rest"
    by simp
  with tokenize_number_start [OF assms, of L lvl "CHR ''j'' # rest"] show ?thesis by simp
qed

lemma tokenize_number_end:
  assumes "acc \<noteq> []" and "\<not> is_exp_char (last acc)"
    and "c = CHR ''+'' \<or> c = CHR ''-'' \<or> c = CHR '')''"
  shows "tokenize L (InNum acc) lvl (c # rest) = emit_number L acc (tokenize L InLine lvl (c # rest))"
proof -
  from assms(2,3) have "\<not> continues_number acc c"
    by (auto simp: continues_number_def is_name_char_def is_name_start_def is_digit_def)
  then show ?thesis by simp
qed

lemma parse_number: "parse_level Sum [NUMBER c] = Some (Constant c, [])"
  by (simp add: grammar_eval)

lemma parse_minus_number: "parse_level Sum [MINUS, NUMBER c] = Some (UnaryOp USub (Constant c), [])"
  by (simp add: grammar_eval)

lemma tokenize_text:
  assumes "number_text t"
  shows "tokenize L InLine 0 t
           = Some [NUMBER (text_const t)]"
  using tokenize_number_start [OF assms, of L 0 "[]"]
  by (simp add: emit_number_def number_token_text [OF assms] emit_def)

lemma tokenize_line_start:
  assumes "c = CHR ''('' \<or> c = CHR ''-'' \<or> is_digit c"
  shows "tokenize L (LineStart 0) 0 (c # cs) = tokenize L InLine 0 (c # cs)"
proof -
  from assms have "c \<noteq> CHR '' ''" "c \<noteq> CHR 0x09" "c \<noteq> CHR 0x0C" "\<not> is_newline c"
    by (auto simp: is_newline_def is_digit_def)
  then show ?thesis by (subst tokenize.simps) simp
qed

lemma tokenize_imag_text:
  assumes "number_text t"
  shows "tokenize L InLine 0 (t @ ''j'') = Some [NUMBER (CComplex PZero (lit_float t))]"
  using tokenize_imag_start [OF assms, of L 0 "[]"]
  by (simp add: emit_number_def number_token_imag [OF assms] emit_def)

lemma tokenize_plus_in_line:
  "tokenize L InLine lvl (CHR ''+'' # cs) = emit PLUS (tokenize L InLine lvl cs)"
  by (subst tokenize.simps) (simp add: is_blank_def is_newline_def is_digit_def is_name_start_def)

lemma tokenize_minus_in_line:
  "tokenize L InLine lvl (CHR ''-'' # cs) = emit MINUS (tokenize L InLine lvl cs)"
  by (subst tokenize.simps) (simp add: is_blank_def is_newline_def is_digit_def is_name_start_def)

lemma tokenize_lpar_in_line:
  "tokenize L InLine 0 (CHR ''('' # cs) = emit LPAR (tokenize L InLine 1 cs)"
  by (subst tokenize.simps) (simp add: is_blank_def is_newline_def is_digit_def is_name_start_def)

lemma tokenize_rpar_end: "tokenize L InLine 1 '')'' = Some [RPAR]"
  by (simp add: is_blank_def is_newline_def is_digit_def is_name_start_def emit_def)

lemma number_text_reads:
  assumes "number_text t" and "c = CHR ''+'' \<or> c = CHR ''-'' \<or> c = CHR '')''"
  shows "tokenize L InLine lvl (t @ c # rest)
           = emit (NUMBER (text_const t)) (tokenize L InLine lvl (c # rest))"
proof -
  have ne: "t \<noteq> []" by (rule number_text_continues [OF assms(1)]) simp
  have nx: "\<not> is_exp_char (last t)"
    using number_text_last [OF assms(1)] by (simp add: digit_not_special)
  have "tokenize L InLine lvl (t @ c # rest) = tokenize L (InNum t) lvl (c # rest)"
    by (rule tokenize_number_start [OF assms(1)])
  also have "\<dots> = emit_number L t (tokenize L InLine lvl (c # rest))"
    by (rule tokenize_number_end [OF ne nx assms(2)])
  finally show ?thesis
    unfolding emit_number_def number_token_text [OF assms(1)] by simp
qed

lemma imag_text_reads:
  assumes "number_text t" and "c = CHR ''+'' \<or> c = CHR ''-'' \<or> c = CHR '')''"
  shows "tokenize L InLine lvl ((t @ ''j'') @ c # rest)
           = emit (NUMBER (CComplex PZero (lit_float t))) (tokenize L InLine lvl (c # rest))"
proof -
  have "tokenize L InLine lvl (t @ CHR ''j'' # c # rest)
      = tokenize L (InNum (t @ ''j'')) lvl (c # rest)"
    by (rule tokenize_imag_start [OF assms(1)])
  also have "\<dots> = emit_number L (t @ ''j'') (tokenize L InLine lvl (c # rest))"
    by (rule tokenize_number_end [OF _ _ assms(2)]) (simp_all add: is_exp_char_def)
  finally show ?thesis
    unfolding emit_number_def number_token_imag [OF assms(1)] by simp
qed

lemma tokenize_name_start:
  assumes "is_name_start c"
  shows "tokenize L InLine lvl (c # cs) = tokenize L (InName [c]) lvl cs"
proof -
  from assms have "\<not> is_blank c" "\<not> is_newline c" "\<not> is_digit c" "c \<noteq> CHR ''.''"
    by (auto simp: is_name_start_def is_blank_def is_newline_def is_digit_def)
  with assms show ?thesis by (subst tokenize.simps) simp
qed

lemma tokenize_name_char:
  assumes "is_name_char c"
  shows "tokenize L (InName acc) lvl (c # cs) = tokenize L (InName (acc @ [c])) lvl cs"
  using assms by (subst tokenize.simps) simp

lemma tokenize_name_end:
  assumes "c = CHR ''+'' \<or> c = CHR ''-'' \<or> c = CHR '')''"
  shows "tokenize L (InName acc) lvl (c # rest) = emit (NAME acc) (tokenize L InLine lvl (c # rest))"
proof -
  from assms have "\<not> is_name_char c" "c \<noteq> CHR 0x27" "c \<noteq> CHR 0x22"
    by (auto simp: is_name_char_def is_name_start_def is_digit_def)
  then show ?thesis by (subst tokenize.simps) simp
qed

lemma name_reads:
  assumes "s = ''inf'' \<or> s = ''nan'' \<or> s = ''infj'' \<or> s = ''nanj''"
    and "c = CHR ''+'' \<or> c = CHR ''-'' \<or> c = CHR '')''"
  shows "tokenize L InLine lvl (s @ c # rest) = emit (NAME s) (tokenize L InLine lvl (c # rest))"
proof -
  have n: "is_name_start CHR ''i''" "is_name_start CHR ''n''" "is_name_char CHR ''n''"
    "is_name_char CHR ''f''" "is_name_char CHR ''a''" "is_name_char CHR ''j''"
    by (simp_all add: is_name_char_def is_name_start_def)
  note e = tokenize_name_end [OF assms(2)]
  have "tokenize L InLine lvl (''inf'' @ c # rest)
      = emit (NAME ''inf'') (tokenize L InLine lvl (c # rest))"
    by (simp only: append_Cons append_Nil tokenize_name_start n tokenize_name_char e)
  moreover have "tokenize L InLine lvl (''nan'' @ c # rest)
      = emit (NAME ''nan'') (tokenize L InLine lvl (c # rest))"
    by (simp only: append_Cons append_Nil tokenize_name_start n tokenize_name_char e)
  moreover have "tokenize L InLine lvl (''infj'' @ c # rest)
      = emit (NAME ''infj'') (tokenize L InLine lvl (c # rest))"
    by (simp only: append_Cons append_Nil tokenize_name_start n tokenize_name_char e)
  moreover have "tokenize L InLine lvl (''nanj'' @ c # rest)
      = emit (NAME ''nanj'') (tokenize L InLine lvl (c # rest))"
    by (simp only: append_Cons append_Nil tokenize_name_start n tokenize_name_char e)
  ultimately show ?thesis using assms(1) by blast
qed

lemma tokenize_paren:
  assumes r1: "\<And>lvl c rest. c = CHR ''+'' \<or> c = CHR ''-'' \<or> c = CHR '')'' \<Longrightarrow>
      tokenize L InLine lvl (t1 @ c # rest) = emit k1 (tokenize L InLine lvl (c # rest))"
    and r2: "\<And>lvl c rest. c = CHR ''+'' \<or> c = CHR ''-'' \<or> c = CHR '')'' \<Longrightarrow>
      tokenize L InLine lvl (t2 @ c # rest) = emit k2 (tokenize L InLine lvl (c # rest))"
  shows "tokenize L (LineStart 0) 0 (''('' @ (if a then ''-'' else []) @ t1
            @ (if b then ''-'' else ''+'') @ t2 @ '')'')
         = Some (LPAR # (if a then [MINUS] else []) @ [k1, if b then MINUS else PLUS, k2, RPAR])"
proof -
  let ?s = "if b then CHR ''-'' else CHR ''+''"
  have im: "tokenize L InLine 1 (t2 @ '')'') = Some [k2, RPAR]"
  proof -
    have "tokenize L InLine 1 (t2 @ '')'') = emit k2 (tokenize L InLine 1 '')'')"
      by (rule r2) simp
    then show ?thesis unfolding tokenize_rpar_end emit_def by simp
  qed
  have sg: "tokenize L InLine 1 (?s # t2 @ '')'') = Some [if b then MINUS else PLUS, k2, RPAR]"
  proof (cases b)
    case True
    have "tokenize L InLine 1 (CHR ''-'' # t2 @ '')'') = Some [MINUS, k2, RPAR]"
      unfolding tokenize_minus_in_line im emit_def by simp
    with True show ?thesis by (simp only: if_True)
  next
    case False
    have "tokenize L InLine 1 (CHR ''+'' # t2 @ '')'') = Some [PLUS, k2, RPAR]"
      unfolding tokenize_plus_in_line im emit_def by simp
    with False show ?thesis by (simp only: if_False)
  qed
  have re: "tokenize L InLine 1 (t1 @ ?s # t2 @ '')'')
      = Some [k1, if b then MINUS else PLUS, k2, RPAR]"
  proof -
    have "tokenize L InLine 1 (t1 @ ?s # t2 @ '')'')
        = emit k1 (tokenize L InLine 1 (?s # t2 @ '')''))"
      by (rule r1) simp
    then show ?thesis unfolding sg emit_def by simp
  qed
  have mi: "tokenize L InLine 1 ((if a then ''-'' else []) @ t1 @ ?s # t2 @ '')'')
      = Some ((if a then [MINUS] else []) @ [k1, if b then MINUS else PLUS, k2, RPAR])"
  proof (cases a)
    case True
    have "tokenize L InLine 1 (CHR ''-'' # t1 @ ?s # t2 @ '')'')
      = Some [MINUS, k1, if b then MINUS else PLUS, k2, RPAR]"
      unfolding tokenize_minus_in_line re emit_def by simp
    with True show ?thesis by (simp only: if_True append_Cons append_Nil)
  next
    case False
    with re show ?thesis by (simp only: if_False append_Nil)
  qed
  have lp: "tokenize L InLine 0 (CHR ''('' # (if a then ''-'' else []) @ t1 @ ?s # t2 @ '')'')
      = Some (LPAR # (if a then [MINUS] else []) @ [k1, if b then MINUS else PLUS, k2, RPAR])"
    unfolding tokenize_lpar_in_line mi emit_def by simp
  have "tokenize L (LineStart 0) 0 (CHR ''('' # (if a then ''-'' else []) @ t1 @ ?s # t2 @ '')'')
      = tokenize L InLine 0 (CHR ''('' # (if a then ''-'' else []) @ t1 @ ?s # t2 @ '')'')"
    by (rule tokenize_line_start) simp
  moreover have "''('' @ (if a then ''-'' else []) @ t1 @ (if b then ''-'' else ''+'') @ t2 @ '')''
      = CHR ''('' # (if a then ''-'' else []) @ t1 @ ?s # t2 @ '')''"
    by simp
  ultimately show ?thesis using lp by (simp only:)
qed

lemma parse_paren_atoms:
  assumes "(k1 = NUMBER c1 \<and> n1 = Constant c1) \<or> (k1 = NAME x1 \<and> name_atom x1 = Some n1)"
    and "(k2 = NUMBER c2 \<and> n2 = Constant c2) \<or> (k2 = NAME x2 \<and> name_atom x2 = Some n2)"
  shows "parse_level Sum (LPAR # (if a then [MINUS] else []) @
           [k1, if b then MINUS else PLUS, k2, RPAR])
         = Some (BinOp (if a then UnaryOp USub n1 else n1) (if b then Sub else Add) n2, [])"
  using assms
  by (cases a; cases b) (auto simp: sum_op_def term_op_def unary_op_def)

lemma f_neg_neg: "f_neg (f_neg x) = x"
  by (cases x) (simp_all add: f_neg_def)

lemma f_neg_abs: "f_signbit x \<Longrightarrow> f_neg (f_abs x) = x"
  by (simp add: f_abs_def f_neg_neg)

lemma f_abs_id: "\<not> f_signbit x \<Longrightarrow> f_abs x = x"
  by (simp add: f_abs_def)

lemma strip_zeros_neg: "strip_zeros ss (- m) e = f_neg (strip_zeros ss m e)"
proof (induction ss arbitrary: m e)
  case Nil
  show ?case by (simp add: f_neg_def)
next
  case (Cons s ss)
  show ?case
  proof (cases "m mod 2 ^ s = 0")
    case True
    then have d: "(2::int) ^ s dvd m" by (simp add: mod_eq_0_iff_dvd)
    then have "(- m) mod 2 ^ s = 0" and "(- m) div 2 ^ s = - (m div 2 ^ s)"
      by (simp_all add: mod_eq_0_iff_dvd dvd_neg_div)
    with True Cons [of "m div 2 ^ s" "e + int s"] show ?thesis by simp
  next
    case False
    then have "(- m) mod 2 ^ s \<noteq> 0"
      by (simp add: mod_eq_0_iff_dvd)
    with False Cons [of m e] show ?thesis by simp
  qed
qed

lemma round_ratio_neg:
  assumes "0 < p"
  shows "round_ratio (- p) q = f_neg (round_ratio p q)"
proof -
  have "pack True m e = f_neg (pack False m e)" for m e
    by (simp add: pack_def normal_def strip_zeros_neg f_neg_def)
  with assms show ?thesis
    by (simp add: round_ratio_def f_neg_def)
qed

lemma ast_parse_tokens:
  "tokenize L (LineStart 0) 0 s = Some ts \<Longrightarrow> parse_level Sum ts = Some (n, []) \<Longrightarrow>
   ast_parse L s = Inr (Expression n)"
  by (simp add: ast_parse_def)

lemma ast_parse_text:
  assumes "number_text t"
  shows "ast_parse L ((if a then ''-'' else []) @ t)
           = Inr (Expression
               (if a then UnaryOp USub (Constant (text_const t))
                else Constant (text_const t)))"
proof (cases a)
  case True
  have "tokenize L (LineStart 0) 0 (CHR ''-'' # t)
      = Some [MINUS, NUMBER (text_const t)]"
    unfolding tokenize_minus tokenize_text [OF assms] emit_def by simp
  then have "ast_parse L (CHR ''-'' # t)
      = Inr (Expression (UnaryOp USub (Constant (text_const t))))"
    by (rule ast_parse_tokens [OF _ parse_minus_number])
  with True show ?thesis by (simp only: if_True append_Cons append_Nil)
next
  case False
  from assms obtain c cs where t: "t = c # cs" and c: "is_digit c"
    by (rule number_text_continues)
  have "tokenize L (LineStart 0) 0 t = tokenize L InLine 0 t"
    unfolding t by (rule tokenize_line_start) (simp add: c)
  then have "tokenize L (LineStart 0) 0 t
      = Some [NUMBER (text_const t)]"
    by (simp only: tokenize_text [OF assms])
  then have "ast_parse L t
      = Inr (Expression (Constant (text_const t)))"
    by (rule ast_parse_tokens [OF _ parse_number])
  with False show ?thesis by (simp only: if_False append_Nil)
qed

lemma ast_parse_imag_text:
  assumes "number_text t"
  shows "ast_parse L ((if a then ''-'' else []) @ t @ ''j'')
           = Inr (Expression
               (if a then UnaryOp USub (Constant (CComplex PZero (lit_float t)))
                else Constant (CComplex PZero (lit_float t))))"
proof (cases a)
  case True
  have "tokenize L (LineStart 0) 0 (CHR ''-'' # t @ ''j'')
      = Some [MINUS, NUMBER (CComplex PZero (lit_float t))]"
    unfolding tokenize_minus tokenize_imag_text [OF assms] emit_def by simp
  then have "ast_parse L (CHR ''-'' # t @ ''j'')
      = Inr (Expression (UnaryOp USub (Constant (CComplex PZero (lit_float t)))))"
    by (rule ast_parse_tokens [OF _ parse_minus_number])
  with True show ?thesis by (simp only: if_True append_Cons append_Nil)
next
  case False
  from assms obtain c cs where t: "t = c # cs" and c: "is_digit c"
    by (rule number_text_continues)
  have "tokenize L (LineStart 0) 0 (c # cs @ ''j'') = tokenize L InLine 0 (c # cs @ ''j'')"
    by (rule tokenize_line_start) (simp add: c)
  then have "tokenize L (LineStart 0) 0 (t @ ''j'') = Some [NUMBER (CComplex PZero (lit_float t))]"
    using tokenize_imag_text [OF assms, of L] by (simp only: t append_Cons)
  then have "ast_parse L (t @ ''j'') = Inr (Expression (Constant (CComplex PZero (lit_float t))))"
    by (rule ast_parse_tokens [OF _ parse_number])
  with False show ?thesis by (simp only: if_False append_Nil)
qed

lemma ast_parse_paren:
  assumes "\<And>lvl c rest. c = CHR ''+'' \<or> c = CHR ''-'' \<or> c = CHR '')'' \<Longrightarrow>
      tokenize L InLine lvl (t1 @ c # rest) = emit k1 (tokenize L InLine lvl (c # rest))"
    and "\<And>lvl c rest. c = CHR ''+'' \<or> c = CHR ''-'' \<or> c = CHR '')'' \<Longrightarrow>
      tokenize L InLine lvl (t2 @ c # rest) = emit k2 (tokenize L InLine lvl (c # rest))"
    and "(k1 = NUMBER c1 \<and> n1 = Constant c1) \<or> (k1 = NAME x1 \<and> name_atom x1 = Some n1)"
    and "(k2 = NUMBER c2 \<and> n2 = Constant c2) \<or> (k2 = NAME x2 \<and> name_atom x2 = Some n2)"
  shows "ast_parse L (''('' @ (if a then ''-'' else []) @ t1 @ (if b then ''-'' else ''+'')
            @ t2 @ '')'')
         = Inr (Expression (BinOp (if a then UnaryOp USub n1 else n1)
                  (if b then Sub else Add) n2))"
  by (rule ast_parse_tokens [OF tokenize_paren [OF assms(1,2)] parse_paren_atoms [OF assms(3,4)]])

lemma text_no_caret:
  assumes "number_text t"
  shows "replace_caret ((if a then ''-'' else []) @ t) = (if a then ''-'' else []) @ t"
    and "replace_caret ((if a then ''-'' else []) @ t @ ''j'') = (if a then ''-'' else []) @ t @ ''j''"
  using number_text_no_caret [OF assms] by (simp_all add: replace_caret_id)

lemma paren_no_caret:
  assumes "CHR ''^'' \<notin> set t1" and "CHR ''^'' \<notin> set t2"
  shows "replace_caret (''('' @ (if a then ''-'' else []) @ t1 @ (if b then ''-'' else ''+'')
            @ t2 @ '')'')
         = ''('' @ (if a then ''-'' else []) @ t1 @ (if b then ''-'' else ''+'') @ t2 @ '')''"
  using assms by (intro replace_caret_id) simp

lemma eval_constant_number:
  "eval_node rt (Constant (CFloat x)) = Inr (VFloat x)"
  "eval_node rt (Constant (CInt n)) = Inr (VInt n)"
  "eval_node rt (Constant (CComplex re im)) = Inr (VComplex re im)"
  by (simp_all add: isinstance_Num_def const_value_def)

lemma eval_minus:
  "eval_node rt (UnaryOp USub n) = (case eval_node rt n of Inl e \<Rightarrow> Inl e | Inr v \<Rightarrow> py_neg v)"
  by (simp add: ALLOWED_OPERATORS_unary_def split: sum.splits)

lemma eval_add_sub:
  "eval_node rt (BinOp l (if b then Sub else Add) r) =
     (case eval_node rt l of Inl e \<Rightarrow> Inl e
      | Inr x \<Rightarrow> (case eval_node rt r of Inl e \<Rightarrow> Inl e
                  | Inr y \<Rightarrow> if b then py_sub rt x y else py_add rt x y))"
  by (cases b) (simp_all add: ALLOWED_OPERATORS_binary_def split: sum.splits)

lemma safe_eval_float_text:
  assumes "number_text tf" and "\<not> lit_is_integer tf" and "lit_float tf = f_abs f"
    and "\<not> f_is_integer f"
  shows "safe_eval rt (ast_parse L) (sign_text f @ tf) = Inr (VFloat f)"
proof -
  have c: "text_const tf = CFloat (f_abs f)"
    using assms(2,3) by (simp add: text_const_def)
  have s: "sign_text f = (if f_signbit f then ''-'' else [])"
    by (simp add: sign_text_def)
  have "eval_node rt (if f_signbit f then UnaryOp USub (Constant (CFloat (f_abs f)))
                      else Constant (CFloat (f_abs f))) = Inr (VFloat f)"
    by (simp del: eval_node.simps
        add: eval_minus eval_constant_number py_neg_def f_neg_abs f_abs_id)
  then show ?thesis
    unfolding safe_eval_def s text_no_caret(1) [OF assms(1)] ast_parse_text [OF assms(1)] c
    using assms(4) by (simp del: eval_node.simps add: eval_node.simps(1) display_def)
qed

lemma is_finite_cases:
  assumes "is_finite x"
  obtains m e where "x = Fin m e" | "x = PZero" | "x = NZero"
  using assms by (cases x) (simp_all add: is_finite_def f_is_nan_def f_is_inf_def)

lemma is_finite_abs: "is_finite x \<Longrightarrow> is_finite (f_abs x)"
  by (cases x) (simp_all add: is_finite_def f_is_nan_def f_is_inf_def f_abs_def f_neg_def
      f_signbit_def)

lemma f_eq_refl: "is_finite x \<Longrightarrow> f_eq x x"
  by (simp add: f_eq_def is_finite_def)

lemma f_eq_zeros: "f_is_zero x \<Longrightarrow> f_is_zero y \<Longrightarrow> f_eq x y"
  by (simp add: f_eq_def)

lemma f_add_zeros: "f_is_zero x \<Longrightarrow> f_is_zero y \<Longrightarrow> f_is_zero (f_add x y)"
  by (auto simp: f_add_def f_is_zero_def f_is_nan_def f_is_inf_def f_zero_def)

lemma f_add_zero:
  assumes "f_eq x' x" and "is_double x" and "is_finite x" and "f_is_zero z"
  shows "f_eq (f_add x' z) x" and "f_eq (f_add z x') x"
proof -
  from assms(3) have "f_eq (f_add x' z) x \<and> f_eq (f_add z x') x"
  proof (cases rule: is_finite_cases)
    case (1 m e)
    with assms(1) have x': "x' = Fin m e"
      by (auto simp: f_eq_def f_is_zero_def split: if_splits)
    from assms(2) 1 have r: "round_ratio (fnum (Fin m e)) (fden (Fin m e)) = Fin m e"
      by (simp add: is_double_def)
    from assms(4) have z: "fnum z = 0" "fden z = 1" "\<not> f_is_nan z" "\<not> f_is_inf z"
      by (auto simp: f_is_zero_def fnum_def fden_def f_is_nan_def f_is_inf_def)
    have "f_add (Fin m e) z = Fin m e" and "f_add z (Fin m e) = Fin m e"
      using z r by (simp_all add: f_add_def f_is_nan_def f_is_inf_def f_is_zero_def)
    with 1 x' show ?thesis by (simp add: f_eq_def f_is_zero_def f_is_nan_def)
  next
    case 2
    with assms(1) have "f_is_zero x'" and "f_is_zero x"
      by (auto simp: f_eq_def f_is_zero_def split: if_splits)
    with assms(4) show ?thesis by (simp add: f_add_zeros f_eq_zeros)
  next
    case 3
    with assms(1) have "f_is_zero x'" and "f_is_zero x"
      by (auto simp: f_eq_def f_is_zero_def split: if_splits)
    with assms(4) show ?thesis by (simp add: f_add_zeros f_eq_zeros)
  qed
  then show "f_eq (f_add x' z) x" and "f_eq (f_add z x') x" by simp_all
qed

lemma lit_float_integer:
  assumes "number_text t" and "lit_is_integer t"
  shows "lit_float t = round_ratio (int (digits_value t)) 1"
proof -
  from assms(2) have p: "lit_point t = []" and x: "lit_exponent t = []"
    by (simp_all add: lit_is_integer_def)
  with number_text_shape(1) [OF assms(1)] have t: "lit_int t = t" by simp
  have f: "lit_frac t = []" by (simp add: lit_frac_def p)
  show ?thesis
    by (simp add: lit_float_def t f lit_exp_value_def x num_digits_def decimal_float_def)
qed

lemma round_ratio_zero_one: "round_ratio 0 q = PZero"
  by (simp add: round_ratio_def)

lemma real_operand:
  assumes "number_text tr" and "lit_float tr = f_abs re" and "is_finite re"
  obtains v xr where
    "eval_node rt (if f_signbit re then UnaryOp USub (Constant (text_const tr))
                   else Constant (text_const tr)) = Inr v"
    and "\<not> is_complex v" and "to_complex v = Inr (xr, PZero)" and "f_eq xr re"
proof (cases "lit_is_integer tr")
  case False
  then have c: "text_const tr = CFloat (f_abs re)"
    by (simp add: text_const_def assms(2))
  have "eval_node rt (if f_signbit re then UnaryOp USub (Constant (text_const tr))
                   else Constant (text_const tr)) = Inr (VFloat re)"
    unfolding c
    by (simp del: eval_node.simps
        add: eval_minus eval_constant_number py_neg_def f_neg_abs f_abs_id)
  moreover have "\<not> is_complex (VFloat re)" and "to_complex (VFloat re) = Inr (re, PZero)"
    by (simp_all add: is_complex_def to_complex_def to_float_def)
  ultimately show thesis
    using f_eq_refl [OF assms(3)] by (rule that)
next
  case True
  define n where "n = digits_value tr"
  from True have c: "text_const tr = CInt (int n)"
    by (simp add: text_const_def n_def)
  from lit_float_integer [OF assms(1) True] assms(2)
  have r: "round_ratio (int n) 1 = f_abs re" by (simp add: n_def)
  have fin: "\<not> f_is_inf (f_abs re)"
    using is_finite_abs [OF assms(3)] by (simp add: is_finite_def)
  show thesis
  proof (cases "f_signbit re")
    case False
    then have "eval_node rt (if f_signbit re then UnaryOp USub (Constant (text_const tr))
                   else Constant (text_const tr)) = Inr (VInt (int n))"
      unfolding c by (simp del: eval_node.simps add: eval_constant_number)
    moreover have "\<not> is_complex (VInt (int n))" by (simp add: is_complex_def)
    moreover have "to_complex (VInt (int n)) = Inr (re, PZero)"
      using r fin False
      by (simp add: to_complex_def to_float_def int_to_float_def int_of_def f_abs_id)
    ultimately show thesis
      using f_eq_refl [OF assms(3)] by (rule that)
  next
    case s: True
    then have e: "eval_node rt (if f_signbit re then UnaryOp USub (Constant (text_const tr))
                   else Constant (text_const tr)) = Inr (VInt (- int n))"
      unfolding c
      by (simp del: eval_node.simps add: eval_minus eval_constant_number py_neg_def int_of_def)
    have nc: "\<not> is_complex (VInt (- int n))" by (simp add: is_complex_def)
    show thesis
    proof (cases "n = 0")
      case True
      with r have "f_abs re = PZero" by (simp add: round_ratio_zero_one)
      with f_neg_abs [OF s] have "re = NZero" by (simp add: f_neg_def)
      then have q: "f_eq PZero re" by (simp add: f_eq_def f_is_zero_def)
      have "to_complex (VInt (- int n)) = Inr (PZero, PZero)"
        using True
        by (simp add: to_complex_def to_float_def int_to_float_def int_of_def
            round_ratio_zero_one f_is_inf_def)
      with e nc show thesis using q by (rule that)
    next
      case False
      then have "round_ratio (- int n) 1 = f_neg (round_ratio (int n) 1)"
        by (intro round_ratio_neg) simp
      with r f_neg_abs [OF s] have "round_ratio (- int n) 1 = re" by simp
      moreover from assms(3) have "\<not> f_is_inf re" by (simp add: is_finite_def)
      ultimately have "to_complex (VInt (- int n)) = Inr (re, PZero)"
        by (simp add: to_complex_def to_float_def int_to_float_def int_of_def)
      with e nc show thesis using f_eq_refl [OF assms(3)] by (rule that)
    qed
  qed
qed

lemma complex_add_sub:
  assumes "to_complex v = Inr x" and "\<And>a b. rt_complex rt Add a b = c_sum a b"
    and "\<And>a b. rt_complex rt Sub a b = c_diff a b"
  shows "py_add rt v (VComplex re im) = Inr (vcomplex (c_sum x (re, im)))"
    and "py_sub rt v (VComplex re im) = Inr (vcomplex (c_diff x (re, im)))"
  using assms
  by (simp_all add: py_add_def py_sub_def is_complex_def complex_op_def complex_result_def
      to_complex_def)

lemma safe_eval_complex_text:
  assumes tr: "number_text tr" "lit_float tr = f_abs re"
    and ti: "number_text ti" "lit_float ti = f_abs im"
    and fin: "is_finite re" "is_finite im" and dbl: "is_double re" "is_double im"
    and add: "\<And>a b. rt_complex rt Add a b = c_sum a b"
    and sub: "\<And>a b. rt_complex rt Sub a b = c_diff a b"
  shows "\<exists>re' im'. safe_eval rt (ast_parse L) (complex_text re im tr ti) = Inr (VComplex re' im')
           \<and> f_eq re' re \<and> f_eq im' im"
proof (cases "re = PZero")
  case True
  then have t: "complex_text re im tr ti = (if f_signbit im then ''-'' else []) @ ti @ ''j''"
    by (simp add: complex_text_def sign_text_def)
  have n: "f_neg PZero = NZero" by (simp add: f_neg_def)
  have e: "eval_node rt (if f_signbit im then UnaryOp USub (Constant (CComplex PZero (lit_float ti)))
                      else Constant (CComplex PZero (lit_float ti)))
        = Inr (VComplex (if f_signbit im then NZero else PZero) im)"
    unfolding ti(2)
    by (simp del: eval_node.simps
        add: eval_minus eval_constant_number py_neg_def f_neg_abs f_abs_id n)
  have "safe_eval rt (ast_parse L) (complex_text re im tr ti)
      = Inr (VComplex (if f_signbit im then NZero else PZero) im)"
    unfolding safe_eval_def t text_no_caret(2) [OF ti(1)] ast_parse_imag_text [OF ti(1)]
    using e by (simp del: eval_node.simps add: eval_node.simps(1) display_def)
  moreover have "f_eq (if f_signbit im then NZero else PZero) re"
    using True by (simp add: f_eq_def f_is_zero_def)
  ultimately show ?thesis
    using f_eq_refl [OF fin(2)] by blast
next
  case False
  define a where "a = f_signbit re"
  define b where "b = f_signbit im"
  from False have t: "complex_text re im tr ti
      = ''('' @ (if a then ''-'' else []) @ tr @ (if b then ''-'' else ''+'') @ (ti @ ''j'') @ '')''"
    by (simp add: complex_text_def sign_text_def a_def b_def)
  have nc: "CHR ''^'' \<notin> set tr" "CHR ''^'' \<notin> set (ti @ ''j'')"
    using number_text_no_caret [OF tr(1)] number_text_no_caret [OF ti(1)] by simp_all
  have p: "ast_parse L (''('' @ (if a then ''-'' else []) @ tr @ (if b then ''-'' else ''+'')
            @ (ti @ ''j'') @ '')'')
      = Inr (Expression (BinOp (if a then UnaryOp USub (Constant (text_const tr))
               else Constant (text_const tr)) (if b then Sub else Add)
               (Constant (CComplex PZero (lit_float ti)))))"
    by (rule ast_parse_paren [OF number_text_reads [OF tr(1)] imag_text_reads [OF ti(1)]])
      simp_all
  obtain v xr where v: "eval_node rt (if a then UnaryOp USub (Constant (text_const tr))
                   else Constant (text_const tr)) = Inr v"
    and x: "to_complex v = Inr (xr, PZero)" and q: "f_eq xr re"
    unfolding a_def by (rule real_operand [OF tr fin(1)])
  have z: "f_is_zero PZero" "f_is_zero NZero" "f_neg PZero = NZero"
    by (simp_all add: f_is_zero_def f_neg_def)
  define w where "w = (if b then vcomplex (c_diff (xr, PZero) (PZero, f_abs im))
                       else vcomplex (c_sum (xr, PZero) (PZero, f_abs im)))"
  have e: "eval_node rt (Expression (BinOp (if a then UnaryOp USub (Constant (text_const tr))
             else Constant (text_const tr)) (if b then Sub else Add)
             (Constant (CComplex PZero (lit_float ti))))) = Inr w"
    unfolding eval_node.simps(1) eval_add_sub v ti(2) eval_constant_number
    by (simp del: eval_node.simps add: complex_add_sub [OF x add sub] w_def)
  have s: "safe_eval rt (ast_parse L) (complex_text re im tr ti) = Inr w"
    unfolding safe_eval_def t paren_no_caret [OF nc] p
    using e by (simp del: eval_node.simps add: display_def w_def vcomplex_def)
  show ?thesis
  proof (cases b)
    case True
    then have im: "f_neg (f_abs im) = im" by (simp add: b_def f_neg_abs)
    have w: "w = VComplex (f_add xr NZero) (f_add PZero im)"
      using True by (simp add: w_def vcomplex_def c_diff_def f_sub_def z im)
    from f_add_zero(1) [OF q dbl(1) fin(1) z(2)]
      f_add_zero(2) [OF f_eq_refl [OF fin(2)] dbl(2) fin(2) z(1)] s w
    show ?thesis by blast
  next
    case False
    then have im: "f_abs im = im" by (simp add: b_def f_abs_id)
    have w: "w = VComplex (f_add xr PZero) (f_add PZero im)"
      using False by (simp add: w_def vcomplex_def c_sum_def im)
    from f_add_zero(1) [OF q dbl(1) fin(1) z(1)]
      f_add_zero(2) [OF f_eq_refl [OF fin(2)] dbl(2) fin(2) z(1)] s w
    show ?thesis by blast
  qed
qed

lemma special_names:
  "name_atom ''inf'' = Some (Name ''inf'')" "name_atom ''nan'' = Some (Name ''nan'')"
  "name_atom ''infj'' = Some (Name ''infj'')" "name_atom ''nanj'' = Some (Name ''nanj'')"
  by (simp_all add: name_atom_def py_keywords_def)

lemma part_reads:
  assumes "part_text x t"
  obtains k n where
    "\<And>lvl c rest. c = CHR ''+'' \<or> c = CHR ''-'' \<or> c = CHR '')'' \<Longrightarrow>
      tokenize L InLine lvl (t @ c # rest) = emit k (tokenize L InLine lvl (c # rest))"
    and "(k = NUMBER (text_const t) \<and> n = Constant (text_const t))
         \<or> (k = NAME t \<and> name_atom t = Some n)"
    and "CHR ''^'' \<notin> set t"
    and "n = (if is_finite x then Constant (text_const t) else Name t)"
proof (cases "is_finite x")
  case True
  with assms have t: "number_text t" by (simp add: part_text_def)
  show thesis
  proof (rule that [of "NUMBER (text_const t)" "Constant (text_const t)"])
    show "tokenize L InLine lvl (t @ c # rest)
        = emit (NUMBER (text_const t)) (tokenize L InLine lvl (c # rest))"
      if "c = CHR ''+'' \<or> c = CHR ''-'' \<or> c = CHR '')''" for lvl c rest
      by (rule number_text_reads [OF t that])
  qed (simp_all add: True number_text_no_caret [OF t])
next
  case False
  with assms have t: "t = ''inf'' \<or> t = ''nan''"
    by (simp add: part_text_def special_text_def)
  show thesis
  proof (rule that [of "NAME t" "Name t"])
    show "tokenize L InLine lvl (t @ c # rest) = emit (NAME t) (tokenize L InLine lvl (c # rest))"
      if "c = CHR ''+'' \<or> c = CHR ''-'' \<or> c = CHR '')''" for lvl c rest
      using t by (intro name_reads [OF _ that]) blast
  qed (use t False in \<open>auto simp: special_names\<close>)
qed

lemma imag_part_reads:
  assumes "part_text x t"
  obtains k n where
    "\<And>lvl c rest. c = CHR ''+'' \<or> c = CHR ''-'' \<or> c = CHR '')'' \<Longrightarrow>
      tokenize L InLine lvl ((t @ ''j'') @ c # rest) = emit k (tokenize L InLine lvl (c # rest))"
    and "(k = NUMBER (CComplex PZero (lit_float t)) \<and> n = Constant (CComplex PZero (lit_float t)))
         \<or> (k = NAME (t @ ''j'') \<and> name_atom (t @ ''j'') = Some n)"
    and "CHR ''^'' \<notin> set (t @ ''j'')"
    and "n = (if is_finite x then Constant (CComplex PZero (lit_float t)) else Name (t @ ''j''))"
proof (cases "is_finite x")
  case True
  with assms have t: "number_text t" by (simp add: part_text_def)
  show thesis
  proof (rule that [of "NUMBER (CComplex PZero (lit_float t))"
        "Constant (CComplex PZero (lit_float t))"])
    show "tokenize L InLine lvl ((t @ ''j'') @ c # rest)
        = emit (NUMBER (CComplex PZero (lit_float t))) (tokenize L InLine lvl (c # rest))"
      if "c = CHR ''+'' \<or> c = CHR ''-'' \<or> c = CHR '')''" for lvl c rest
      by (rule imag_text_reads [OF t that])
  qed (simp_all add: True number_text_no_caret [OF t])
next
  case False
  with assms have t: "t @ ''j'' = ''infj'' \<or> t @ ''j'' = ''nanj''"
    by (simp add: part_text_def special_text_def)
  show thesis
  proof (rule that [of "NAME (t @ ''j'')" "Name (t @ ''j'')"])
    show "tokenize L InLine lvl ((t @ ''j'') @ c # rest)
        = emit (NAME (t @ ''j'')) (tokenize L InLine lvl (c # rest))"
      if "c = CHR ''+'' \<or> c = CHR ''-'' \<or> c = CHR '')''" for lvl c rest
      using t by (intro name_reads [OF _ that]) blast
  qed (use t False in \<open>auto simp: special_names\<close>)
qed

lemma eval_name: "eval_node rt (Name x) = Inl (ValueError (''Unsupported expression: '' @ class_repr ''Name''))"
  by (simp add: node_name_def)

lemma not_finite_cases:
  assumes "\<not> is_finite x"
  obtains "x = PInf" | "x = NInf" | "x = NaN"
  using assms by (cases x) (simp_all add: is_finite_def f_is_nan_def f_is_inf_def)

lemma safe_eval_special_names:
  "safe_eval rt (ast_parse L) ''inf''
     = Inl (ValueError (''Unsupported expression: '' @ class_repr ''Name''))"
  "safe_eval rt (ast_parse L) ''-inf''
     = Inl (ValueError (''Unsupported expression: '' @ class_repr ''Name''))"
  "safe_eval rt (ast_parse L) ''nan''
     = Inl (ValueError (''Unsupported expression: '' @ class_repr ''Name''))"
  "safe_eval rt (ast_parse L) ''infj''
     = Inl (ValueError (''Unsupported expression: '' @ class_repr ''Name''))"
  "safe_eval rt (ast_parse L) ''-infj''
     = Inl (ValueError (''Unsupported expression: '' @ class_repr ''Name''))"
  "safe_eval rt (ast_parse L) ''nanj''
     = Inl (ValueError (''Unsupported expression: '' @ class_repr ''Name''))"
  by (simp_all add: parser_eval walk_eval)

lemma safe_eval_complex_special:
  assumes re: "part_text re tr" and im: "part_text im ti"
    and nf: "\<not> (is_finite re \<and> is_finite im)"
  shows "safe_eval rt (ast_parse L) (complex_text re im tr ti)
           = Inl (ValueError (''Unsupported expression: '' @ class_repr ''Name''))"
proof (cases "re = PZero")
  case True
  with nf have "\<not> is_finite im" by (simp add: is_finite_def f_is_nan_def f_is_inf_def)
  then show ?thesis
  proof (cases rule: not_finite_cases)
    case 1
    with im True have "complex_text re im tr ti = ''infj''"
      by (simp add: part_text_def special_text_def is_finite_def f_is_nan_def f_is_inf_def
          complex_text_def sign_text_def f_signbit_def)
    then show ?thesis by (simp only: safe_eval_special_names)
  next
    case 2
    with im True have "complex_text re im tr ti = ''-infj''"
      by (simp add: part_text_def special_text_def is_finite_def f_is_nan_def f_is_inf_def
          complex_text_def sign_text_def f_signbit_def)
    then show ?thesis by (simp only: safe_eval_special_names)
  next
    case 3
    with im True have "complex_text re im tr ti = ''nanj''"
      by (simp add: part_text_def special_text_def is_finite_def f_is_nan_def f_is_inf_def
          complex_text_def sign_text_def f_signbit_def)
    then show ?thesis by (simp only: safe_eval_special_names)
  qed
next
  case False
  define a where "a = f_signbit re"
  define b where "b = f_signbit im"
  from False have t: "complex_text re im tr ti
      = ''('' @ (if a then ''-'' else []) @ tr @ (if b then ''-'' else ''+'') @ (ti @ ''j'') @ '')''"
    by (simp add: complex_text_def sign_text_def a_def b_def)
  obtain k1 n1 where r1: "\<And>lvl c rest. c = CHR ''+'' \<or> c = CHR ''-'' \<or> c = CHR '')'' \<Longrightarrow>
      tokenize L InLine lvl (tr @ c # rest) = emit k1 (tokenize L InLine lvl (c # rest))"
    and a1: "(k1 = NUMBER (text_const tr) \<and> n1 = Constant (text_const tr))
         \<or> (k1 = NAME tr \<and> name_atom tr = Some n1)"
    and c1: "CHR ''^'' \<notin> set tr"
    and n1: "n1 = (if is_finite re then Constant (text_const tr) else Name tr)"
    by (rule part_reads [OF re, of L]) blast
  obtain k2 n2 where r2: "\<And>lvl c rest. c = CHR ''+'' \<or> c = CHR ''-'' \<or> c = CHR '')'' \<Longrightarrow>
      tokenize L InLine lvl ((ti @ ''j'') @ c # rest) = emit k2 (tokenize L InLine lvl (c # rest))"
    and a2: "(k2 = NUMBER (CComplex PZero (lit_float ti))
              \<and> n2 = Constant (CComplex PZero (lit_float ti)))
         \<or> (k2 = NAME (ti @ ''j'') \<and> name_atom (ti @ ''j'') = Some n2)"
    and c2: "CHR ''^'' \<notin> set (ti @ ''j'')"
    and n2: "n2 = (if is_finite im then Constant (CComplex PZero (lit_float ti))
                   else Name (ti @ ''j''))"
    by (rule imag_part_reads [OF im, of L]) blast
  have p: "ast_parse L (''('' @ (if a then ''-'' else []) @ tr @ (if b then ''-'' else ''+'')
            @ (ti @ ''j'') @ '')'')
      = Inr (Expression (BinOp (if a then UnaryOp USub n1 else n1) (if b then Sub else Add) n2))"
    by (rule ast_parse_paren [OF r1 r2 a1 a2])
  have "eval_node rt (BinOp (if a then UnaryOp USub n1 else n1) (if b then Sub else Add) n2)
      = Inl (ValueError (''Unsupported expression: '' @ class_repr ''Name''))"
  proof (cases "is_finite re")
    case False
    with n1 have "eval_node rt (if a then UnaryOp USub n1 else n1)
        = Inl (ValueError (''Unsupported expression: '' @ class_repr ''Name''))"
      by (simp del: eval_node.simps add: eval_minus eval_name)
    then show ?thesis
      unfolding eval_add_sub by (simp del: eval_node.simps)
  next
    case True
    with re have tr: "number_text tr" "lit_float tr = f_abs re" by (simp_all add: part_text_def)
    from True n1 have n1': "n1 = Constant (text_const tr)" by simp
    obtain v where l: "eval_node rt (if a then UnaryOp USub n1 else n1) = Inr v"
      unfolding n1' a_def by (rule real_operand [OF tr True])
    from True nf n2 have "eval_node rt n2
        = Inl (ValueError (''Unsupported expression: '' @ class_repr ''Name''))"
      by (simp del: eval_node.simps add: eval_name)
    with l show ?thesis
      unfolding eval_add_sub by (simp del: eval_node.simps)
  qed
  then show ?thesis
    unfolding safe_eval_def t paren_no_caret [OF c1 c2] p
    by (simp del: eval_node.simps add: eval_node.simps(1))
qed

lemma safe_eval_not_integer:
  assumes "safe_eval rt prs x = Inr (VFloat f)"
  shows "\<not> f_is_integer f"
proof -
  from assms obtain r where "display r = VFloat f"
    by (auto simp: safe_eval_def split: sum.splits if_splits)
  then show ?thesis
    by (cases r) (auto simp: display_def split: if_splits)
qed

lemma disallowed_name:
  "failure_of (ValueError (''Unsupported expression: '' @ class_repr ''Name''))
     = Some DisallowedConstruct"
  by (simp add: failure_eval)

text \<open>
  Claim C7, as the code has it. Let \<^verbatim>\<open>safe_eval\<close> succeed on \<open>x\<close> with the result \<open>v\<close>, and let
  \<^verbatim>\<open>str\<close> of \<open>v\<close> succeed with the text \<open>t\<close>.
  \<^item> When \<open>v\<close> is an \<^verbatim>\<open>int\<close> or a \<^verbatim>\<open>bool\<close>, evaluating \<open>t\<close> gives \<open>v\<close> again.
  \<^item> When \<open>v\<close> is a finite float, printed as its sign and a decimal text with a point or an
    exponent that reads as its magnitude, evaluating \<open>t\<close> gives \<open>v\<close> again.
  \<^item> When \<open>v\<close> is a complex number with finite parts, printed as \<^verbatim>\<open>complex_repr\<close> prints it
    from decimal texts that read as the magnitudes of the parts, and complex sums and
    differences are taken part by part, evaluating \<open>t\<close> gives a complex number whose parts
    are equal to those of \<open>v\<close> (a zero part may come back with the other sign).
  \<^item> When \<open>v\<close> is a float infinity or NaN, or a complex number with such a part, the text
    contains the name \<^verbatim>\<open>inf\<close> or \<^verbatim>\<open>nan\<close> and evaluating it fails with the kind
    \<open>DisallowedConstruct\<close>.
\<close>

theorem C7_reevaluating_the_result:
  assumes "safe_eval rt (ast_parse (rt_max_str_digits rt)) x = Inr v"
    and "py_str rt v = Inr t"
  shows "(v = VInt n \<or> v = VBool b
            \<longrightarrow> safe_eval rt (ast_parse (rt_max_str_digits rt)) t
                  = safe_eval rt (ast_parse (rt_max_str_digits rt)) x)
         \<and> (v = VFloat f \<and> is_finite f \<and> t = sign_text f @ tf \<and> part_text f tf
              \<and> \<not> lit_is_integer tf
            \<longrightarrow> safe_eval rt (ast_parse (rt_max_str_digits rt)) t
                  = safe_eval rt (ast_parse (rt_max_str_digits rt)) x)
         \<and> (v = VComplex re im \<and> is_finite re \<and> is_finite im
              \<and> t = complex_text re im tr ti \<and> part_text re tr \<and> part_text im ti
              \<and> is_double re \<and> is_double im
              \<and> (\<forall>c d. rt_complex rt Add c d = c_sum c d)
              \<and> (\<forall>c d. rt_complex rt Sub c d = c_diff c d)
            \<longrightarrow> (\<exists>re' im'. safe_eval rt (ast_parse (rt_max_str_digits rt)) t
                              = Inr (VComplex re' im') \<and> f_eq re' re \<and> f_eq im' im))
         \<and> (v = VFloat f \<and> \<not> is_finite f
            \<longrightarrow> (\<exists>e. safe_eval rt (ast_parse (rt_max_str_digits rt)) t = Inl e
                     \<and> failure_of e = Some DisallowedConstruct))
         \<and> (v = VComplex re im \<and> \<not> (is_finite re \<and> is_finite im)
              \<and> t = complex_text re im tr ti \<and> part_text re tr \<and> part_text im ti
            \<longrightarrow> (\<exists>e. safe_eval rt (ast_parse (rt_max_str_digits rt)) t = Inl e
                     \<and> failure_of e = Some DisallowedConstruct))"
proof (intro conjI impI)
  let ?P = "ast_parse (rt_max_str_digits rt)"
  {
    assume "v = VInt n \<or> v = VBool b"
    then have "safe_eval rt ?P t = Inr v"
    proof
      assume v: "v = VInt n"
      with assms(2) have "\<not> over_digit_limit (rt_max_str_digits rt) (length (dec (nat \<bar>n\<bar>)))"
        and "t = str_int n"
        by (auto simp: py_str_def split: if_splits)
      with safe_eval_str_int v show ?thesis by simp
    next
      assume v: "v = VBool b"
      with assms(2) have "t = (if b then ''True'' else ''False'')"
        by (auto simp: py_str_def)
      with safe_eval_str_bool v show ?thesis by simp
    qed
    with assms(1) show "safe_eval rt ?P t = safe_eval rt ?P x" by simp
  }
  {
    assume h: "v = VFloat f \<and> is_finite f \<and> t = sign_text f @ tf \<and> part_text f tf
      \<and> \<not> lit_is_integer tf"
    then have tf: "number_text tf" "lit_float tf = f_abs f" by (simp_all add: part_text_def)
    from h assms(1) have "\<not> f_is_integer f" by (simp add: safe_eval_not_integer)
    from safe_eval_float_text [OF tf(1) _ tf(2) this] h assms(1)
    show "safe_eval rt ?P t = safe_eval rt ?P x" by simp
  }
  {
    assume h: "v = VComplex re im \<and> is_finite re \<and> is_finite im
      \<and> t = complex_text re im tr ti \<and> part_text re tr \<and> part_text im ti
      \<and> is_double re \<and> is_double im
      \<and> (\<forall>c d. rt_complex rt Add c d = c_sum c d)
      \<and> (\<forall>c d. rt_complex rt Sub c d = c_diff c d)"
    then have tr: "number_text tr" "lit_float tr = f_abs re"
      and ti: "number_text ti" "lit_float ti = f_abs im"
      by (simp_all add: part_text_def)
    from h have fin: "is_finite re" "is_finite im" and dbl: "is_double re" "is_double im"
      by simp_all
    from h have add: "rt_complex rt Add c d = c_sum c d"
      and sub: "rt_complex rt Sub c d = c_diff c d" for c d
      by blast+
    from safe_eval_complex_text [OF tr ti fin dbl add sub] h
    show "\<exists>re' im'. safe_eval rt ?P t = Inr (VComplex re' im') \<and> f_eq re' re \<and> f_eq im' im"
      by simp
  }
  {
    assume h: "v = VFloat f \<and> \<not> is_finite f"
    then have "\<not> is_finite f" by simp
    then have "t = ''inf'' \<or> t = ''-inf'' \<or> t = ''nan''"
      using assms(2) h by (cases rule: not_finite_cases) (auto simp: py_str_def)
    then have "safe_eval rt ?P t
        = Inl (ValueError (''Unsupported expression: '' @ class_repr ''Name''))"
      using safe_eval_special_names(1-3) [of rt "rt_max_str_digits rt"] by (elim disjE) simp_all
    with disallowed_name
    show "\<exists>e. safe_eval rt ?P t = Inl e \<and> failure_of e = Some DisallowedConstruct"
      by blast
  }
  {
    assume h: "v = VComplex re im \<and> \<not> (is_finite re \<and> is_finite im)
      \<and> t = complex_text re im tr ti \<and> part_text re tr \<and> part_text im ti"
    then have "safe_eval rt ?P t
        = Inl (ValueError (''Unsupported expression: '' @ class_repr ''Name''))"
      using safe_eval_complex_special [of re tr im ti rt "rt_max_str_digits rt"] by simp
    with disallowed_name
    show "\<exists>e. safe_eval rt ?P t = Inl e \<and> failure_of e = Some DisallowedConstruct"
      by blast
  }
qed

theorem C7_reevaluating_the_result_witness:
  "safe_eval printing_runtime (ast_parse (rt_max_str_digits printing_runtime)) ''2-3*4''
     = Inr (VInt (- 10))
   \<and> py_str printing_runtime (VInt (- 10)) = Inr ''-10''
   \<and> safe_eval printing_runtime (ast_parse (rt_max_str_digits printing_runtime)) ''-10''
       = Inr (VInt (- 10))
   \<and> safe_eval printing_runtime (ast_parse (rt_max_str_digits printing_runtime)) ''10/4''
       = Inr (VFloat (Fin 5 (- 1)))
   \<and> py_str printing_runtime (VFloat (Fin 5 (- 1))) = Inr ''2.5''
   \<and> safe_eval printing_runtime (ast_parse (rt_max_str_digits printing_runtime)) ''2.5''
       = Inr (VFloat (Fin 5 (- 1)))
   \<and> safe_eval printing_runtime (ast_parse (rt_max_str_digits printing_runtime)) ''(-1)**.5''
       = Inr (VComplex (Fin 4967757600021511 (- 106)) (Fin 1 0))
   \<and> py_str printing_runtime (VComplex (Fin 4967757600021511 (- 106)) (Fin 1 0))
       = Inr ''(6.123233995736766e-17+1j)''
   \<and> (\<exists>re' im'. safe_eval printing_runtime (ast_parse (rt_max_str_digits printing_runtime))
           ''(6.123233995736766e-17+1j)'' = Inr (VComplex re' im')
         \<and> f_eq re' (Fin 4967757600021511 (- 106)) \<and> f_eq im' (Fin 1 0))
   \<and> safe_eval printing_runtime (ast_parse (rt_max_str_digits printing_runtime)) ''1e309''
       = Inr (VFloat PInf)
   \<and> py_str printing_runtime (VFloat PInf) = Inr ''inf''
   \<and> (\<exists>e. safe_eval printing_runtime (ast_parse (rt_max_str_digits printing_runtime)) ''inf''
           = Inl e \<and> failure_of e = Some DisallowedConstruct)
   \<and> safe_eval printing_runtime (ast_parse (rt_max_str_digits printing_runtime)) ''1e309j''
       = Inr (VComplex PZero PInf)
   \<and> py_str printing_runtime (VComplex PZero PInf) = Inr ''infj''
   \<and> (\<exists>e. safe_eval printing_runtime (ast_parse (rt_max_str_digits printing_runtime)) ''infj''
           = Inl e \<and> failure_of e = Some DisallowedConstruct)"
proof -
  let ?P = "ast_parse (rt_max_str_digits printing_runtime)"
  have L: "rt_max_str_digits printing_runtime = 4300"
    by (simp add: printing_runtime_def sample_runtime_def)
  have a1: "safe_eval printing_runtime ?P ''2-3*4'' = Inr (VInt (- 10))"
    unfolding L by (simp add: parser_eval walk_eval arith_eval)
  have c1: "py_str printing_runtime (VInt (- 10)) = Inr ''-10''"
    by (simp add: py_str_def str_int_def dec.simps digit_char_def over_digit_limit_def L)
  have a2: "safe_eval printing_runtime ?P ''10/4'' = Inr (VFloat (Fin 5 (- 1)))"
    unfolding L by (simp add: parser_eval walk_eval arith_eval float_eval round_ratio_eval)
  have c2: "py_str printing_runtime (VFloat (Fin 5 (- 1))) = Inr ''2.5''"
    by (simp add: py_str_def printing_runtime_def)
  have h2: "is_finite (Fin 5 (- 1))" "''2.5'' = sign_text (Fin 5 (- 1)) @ ''2.5''"
    "part_text (Fin 5 (- 1)) ''2.5''" "\<not> lit_is_integer ''2.5''"
    by (simp_all add: text_eval literal_eval float_eval round_ratio_eval)
  have a3: "safe_eval printing_runtime ?P ''(-1)**.5''
      = Inr (VComplex (Fin 4967757600021511 (- 106)) (Fin 1 0))"
    unfolding L
    by (simp add: parser_eval walk_eval arith_eval float_eval round_ratio_eval
        printing_runtime_def sample_runtime_def)
  have c3: "py_str printing_runtime (VComplex (Fin 4967757600021511 (- 106)) (Fin 1 0))
      = Inr ''(6.123233995736766e-17+1j)''"
    by (simp add: py_str_def printing_runtime_def)
  have h3: "is_finite (Fin 4967757600021511 (- 106))" "is_finite (Fin 1 0)"
    "''(6.123233995736766e-17+1j)''
       = complex_text (Fin 4967757600021511 (- 106)) (Fin 1 0) ''6.123233995736766e-17'' ''1''"
    "part_text (Fin 4967757600021511 (- 106)) ''6.123233995736766e-17''"
    "part_text (Fin 1 0) ''1''"
    "is_double (Fin 4967757600021511 (- 106))" "is_double (Fin 1 0)"
    by (simp_all add: text_eval literal_eval float_eval round_ratio_eval)
  have r3: "\<forall>c d. rt_complex printing_runtime Add c d = c_sum c d"
    "\<forall>c d. rt_complex printing_runtime Sub c d = c_diff c d"
    by (simp_all add: printing_runtime_def)
  have a4: "safe_eval printing_runtime ?P ''1e309'' = Inr (VFloat PInf)"
    unfolding L by (simp add: parser_eval walk_eval float_eval round_ratio_eval)
  have c4: "py_str printing_runtime (VFloat PInf) = Inr ''inf''"
    by (simp add: py_str_def)
  have h4: "\<not> is_finite PInf"
    by (simp add: text_eval float_eval)
  have a5: "safe_eval printing_runtime ?P ''1e309j'' = Inr (VComplex PZero PInf)"
    unfolding L by (simp add: parser_eval walk_eval float_eval round_ratio_eval)
  have c5: "py_str printing_runtime (VComplex PZero PInf) = Inr ''infj''"
    by (simp add: py_str_def printing_runtime_def)
  have h5: "\<not> (is_finite PZero \<and> is_finite PInf)"
    "''infj'' = complex_text PZero PInf ''0'' ''inf''"
    "part_text PZero ''0''" "part_text PInf ''inf''"
    by (simp_all add: text_eval literal_eval float_eval round_ratio_eval)
  from C7_reevaluating_the_result [OF a1 c1, of "- 10" True PZero "[]" PZero PZero "[]" "[]"]
  have b1: "safe_eval printing_runtime ?P ''-10'' = Inr (VInt (- 10))"
    using a1 by simp
  from C7_reevaluating_the_result [OF a2 c2, of 0 True "Fin 5 (- 1)" "''2.5''" PZero PZero
      "[]" "[]"] h2
  have b2: "safe_eval printing_runtime ?P ''2.5'' = Inr (VFloat (Fin 5 (- 1)))"
    using a2 by simp
  from C7_reevaluating_the_result [OF a3 c3, of 0 True PZero "[]"
      "Fin 4967757600021511 (- 106)" "Fin 1 0" "''6.123233995736766e-17''" "''1''"] h3 r3
  have b3: "\<exists>re' im'. safe_eval printing_runtime ?P ''(6.123233995736766e-17+1j)''
      = Inr (VComplex re' im') \<and> f_eq re' (Fin 4967757600021511 (- 106)) \<and> f_eq im' (Fin 1 0)"
    by simp
  from C7_reevaluating_the_result [OF a4 c4, of 0 True PInf "[]" PZero PZero "[]" "[]"] h4
  have b4: "\<exists>e. safe_eval printing_runtime ?P ''inf'' = Inl e
      \<and> failure_of e = Some DisallowedConstruct"
    by simp
  from C7_reevaluating_the_result [OF a5 c5, of 0 True PZero "[]" PZero PInf "''0''" "''inf''"] h5
  have b5: "\<exists>e. safe_eval printing_runtime ?P ''infj'' = Inl e
      \<and> failure_of e = Some DisallowedConstruct"
    by simp
  from a1 c1 b1 a2 c2 b2 a3 c3 b3 a4 c4 b4 a5 c5 b5 show ?thesis by blast
qed

text \<open>
  The claim as the specification states it fails on the text \<^verbatim>\<open>1e309\<close>: the literal is too
  large for a double and evaluates to the float infinity, whose \<^verbatim>\<open>str\<close> is \<^verbatim>\<open>inf\<close>; the text
  \<^verbatim>\<open>inf\<close> is a name, which \<^verbatim>\<open>safe_eval\<close> rejects.
\<close>

theorem C7_infinity_counterexample:
  "safe_eval sample_runtime (ast_parse 4300) ''1e309'' = Inr (VFloat PInf)
   \<and> py_str sample_runtime (VFloat PInf) = Inr ''inf''
   \<and> safe_eval sample_runtime (ast_parse 4300) ''inf''
       = Inl (ValueError (''Unsupported expression: '' @ class_repr ''Name''))
   \<and> failure_of (ValueError (''Unsupported expression: '' @ class_repr ''Name''))
       = Some DisallowedConstruct"
proof -
  have a: "safe_eval sample_runtime (ast_parse 4300) ''1e309'' = Inr (VFloat PInf)"
    by (simp add: parser_eval walk_eval float_eval round_ratio_eval)
  have b: "py_str sample_runtime (VFloat PInf) = Inr ''inf''"
    by (simp add: py_str_def)
  have c: "safe_eval sample_runtime (ast_parse 4300) ''inf''
       = Inl (ValueError (''Unsupported expression: '' @ class_repr ''Name''))"
    by (simp add: parser_eval walk_eval)
  have d: "failure_of (ValueError (''Unsupported expression: '' @ class_repr ''Name''))
       = Some DisallowedConstruct"
    by (simp add: failure_eval)
  from a b c d show ?thesis by simp
qed

end
